theory Spec2Isabelle
  imports Main "HOL-Library.Word"
begin

unbundle bit_operations_syntax

section \<open>coSimple: a minimal CANopen master\<close>

text \<open>
  A shallow embedding of \<^verbatim>\<open>coSimple.c\<close> and \<^verbatim>\<open>coSimple.h\<close>.

  \<^item> C integers are machine words: \<^verbatim>\<open>uint8_t\<close>, \<^verbatim>\<open>uint16_t\<close> and \<^verbatim>\<open>uint32_t\<close> are
    8, 16 and 32 bit words, \<^verbatim>\<open>int\<close> is a 32 bit word read in two's complement
    (\<open>-1\<close> is \<open>0xFFFFFFFF\<close>), \<^verbatim>\<open>size_t\<close> is a 32 bit word.
  \<^item> The four callbacks of \<^verbatim>\<open>co_t\<close> are scripts: the reply of the n-th call. The calls
    made so far, the frames handed to \<^verbatim>\<open>tx\<close>, the events handed to \<^verbatim>\<open>emcy\<close> and the
    SYNC counter are the state \<open>co_state\<close>, passed in and returned.
  \<^item> A failing \<^verbatim>\<open>assert\<close> is the result \<open>Inl AssertionFailed\<close>. The assertions on
    pointers (\<^verbatim>\<open>assert(co)\<close>, \<^verbatim>\<open>assert(co->rx)\<close>, \<^verbatim>\<open>assert(data)\<close>) have no
    counterpart: the model has no null pointer.
  \<^item> The polling loops can run forever (a receive callback that never has data and a
    clock that stands still), so they take fuel, one unit per iteration;
    \<open>Inl FuelExhausted\<close> is a loop that has not returned yet.
\<close>

type_synonym u8 = "8 word"
type_synonym u16 = "16 word"
type_synonym u32 = "32 word"
type_synonym c_int = "32 word"
type_synonym size_t = "32 word"

datatype fault = AssertionFailed | FuelExhausted

subsection \<open>Frames and identifiers (\<^verbatim>\<open>co_msg_t\<close>, \<^verbatim>\<open>co_cob_id_t\<close>)\<close>

text \<open>\<^verbatim>\<open>data\<close> is the array \<^verbatim>\<open>uint8_t data[8]\<close>: a list of 8 bytes.\<close>

record co_msg =
  cobId :: u16
  len :: u8
  data :: "u8 list"

definition COB_ID_NMT :: u16 where "COB_ID_NMT = 0x000"
definition COB_ID_SYNC :: u16 where "COB_ID_SYNC = 0x080"
definition COB_ID_EMCY :: u16 where "COB_ID_EMCY = 0x080"
definition COB_ID_TIME :: u16 where "COB_ID_TIME = 0x100"
definition COB_ID_TPDO1 :: u16 where "COB_ID_TPDO1 = 0x180"
definition COB_ID_RPDO1 :: u16 where "COB_ID_RPDO1 = 0x200"
definition COB_ID_TSDO :: u16 where "COB_ID_TSDO = 0x580"
definition COB_ID_RSDO :: u16 where "COB_ID_RSDO = 0x600"
definition COB_ID_HRTB :: u16 where "COB_ID_HRTB = 0x700"

definition CO_TIMEOUT_NMT :: u32 where "CO_TIMEOUT_NMT = 3000"
definition CO_TIMEOUT_SDO :: u32 where "CO_TIMEOUT_SDO = 1000"

text \<open>\<^verbatim>\<open>msg->cobId & 0b11110000000\<close> and \<^verbatim>\<open>msg->cobId & 0b00001111111\<close>, the latter
  converted to \<^verbatim>\<open>uint8_t\<close>.\<close>

definition getCOBIDType :: "co_msg \<Rightarrow> u16" where
  "getCOBIDType msg = cobId msg AND 0x780"

definition getNodeId :: "co_msg \<Rightarrow> u8" where
  "getNodeId msg = ucast (cobId msg AND 0x07F)"

subsection \<open>The instance (\<^verbatim>\<open>co_t\<close>) and the state around it\<close>

text \<open>
  \<open>rx co n\<close> is the n-th call of the receive callback: its return value and the frame it
  stored through its pointer argument, \<open>None\<close> when it left the caller's frame as it
  was. \<open>tx co n msg\<close> is the return value of the n-th call of the send callback, given
  \<open>msg\<close>. \<open>ms co n\<close> is the clock value the n-th call of the time callback returns.
\<close>

record co_t =
  rx :: "nat \<Rightarrow> c_int \<times> co_msg option"
  tx :: "nat \<Rightarrow> co_msg \<Rightarrow> c_int"
  ms :: "nat \<Rightarrow> u32"

text \<open>An event handed to the \<^verbatim>\<open>emcy\<close> callback: \<^verbatim>\<open>nodeId\<close>, \<^verbatim>\<open>eec\<close>, \<^verbatim>\<open>er\<close> and the
  bytes that \<^verbatim>\<open>msef\<close> points to.\<close>

record emcy_event =
  emcy_nodeId :: u8
  emcy_eec :: u16
  emcy_er :: u8
  emcy_msef :: "u8 list"

record co_state =
  rx_calls :: nat
  ms_calls :: nat
  tx_log :: "co_msg list"
  emcy_log :: "emcy_event list"
  syncCounter :: u8

text \<open>One call of each callback.\<close>

definition call_ms :: "co_t \<Rightarrow> co_state \<Rightarrow> u32 \<times> co_state" where
  "call_ms co s = (ms co (ms_calls s), s\<lparr>ms_calls := Suc (ms_calls s)\<rparr>)"

definition call_tx :: "co_t \<Rightarrow> co_state \<Rightarrow> co_msg \<Rightarrow> c_int \<times> co_state" where
  "call_tx co s msg = (tx co (length (tx_log s)) msg, s\<lparr>tx_log := tx_log s @ [msg]\<rparr>)"

definition call_rx :: "co_t \<Rightarrow> co_state \<Rightarrow> co_msg \<Rightarrow> c_int \<times> co_msg \<times> co_state" where
  "call_rx co s msg =
     (case rx co (rx_calls s) of
        (ret, stored) \<Rightarrow>
          (ret, (case stored of None \<Rightarrow> msg | Some m \<Rightarrow> m), s\<lparr>rx_calls := Suc (rx_calls s)\<rparr>))"

subsection \<open>Timeout check (\<^verbatim>\<open>haveTimeout\<close>)\<close>

text \<open>
  \<^verbatim>\<open>int32_t delta = now - start; uint32_t duration = delta < 0 ? -delta : delta;\<close>
  The negation of the least \<^verbatim>\<open>int32_t\<close> wraps to itself, as it does on two's
  complement hardware. \<^verbatim>\<open>UINT32_MAX / 2\<close> is \<open>0x7FFFFFFF\<close>.
\<close>

definition haveTimeout :: "co_t \<Rightarrow> co_state \<Rightarrow> u32 \<Rightarrow> u32 \<Rightarrow> fault + (c_int \<times> co_state)" where
  "haveTimeout co s start timeout =
     (if \<not> timeout < 0x7FFFFFFF then Inl AssertionFailed
      else
        (case call_ms co s of
           (now, s') \<Rightarrow>
             let delta = now - start;
                 duration = (if delta <s 0 then - delta else delta)
             in if duration \<ge> timeout then Inr (-1, s') else Inr (0, s')))"

subsection \<open>Boot-up wait (\<^verbatim>\<open>coNMTWaitBoot\<close>)\<close>

text \<open>The condition of the \<^verbatim>\<open>if\<close> in the loop of \<^verbatim>\<open>coNMTWaitBoot\<close>.\<close>

definition isBootUp :: "u8 \<Rightarrow> co_msg \<Rightarrow> bool" where
  "isBootUp nodeId msg =
     (COB_ID_HRTB = getCOBIDType msg \<and> nodeId = getNodeId msg \<and> 1 = len msg \<and>
      0x00 = data msg ! 0)"

text \<open>
  \<^verbatim>\<open>while (-1 != (ret = co->rx(&msg))) { ... }\<close>, one unit of fuel per iteration.
  \<open>msg\<close> is the local frame, which an iteration inherits from the one before.
\<close>

fun coNMTWaitBoot_loop ::
  "nat \<Rightarrow> co_t \<Rightarrow> u8 \<Rightarrow> u32 \<Rightarrow> co_msg \<Rightarrow> co_state \<Rightarrow> fault + (c_int \<times> co_state)" where
  "coNMTWaitBoot_loop 0 co nodeId start msg s = Inl FuelExhausted"
| "coNMTWaitBoot_loop (Suc n) co nodeId start msg s =
     (case call_rx co s msg of
        (ret, msg', s1) \<Rightarrow>
          if ret = -1 then Inr (ret, s1)
          else if isBootUp nodeId msg' then Inr (0, s1)
          else
            (case haveTimeout co s1 start CO_TIMEOUT_NMT of
               Inl f \<Rightarrow> Inl f
             | Inr (t, s2) \<Rightarrow>
                 if 0 \<noteq> t then Inr (-1, s2)
                 else coNMTWaitBoot_loop n co nodeId start msg' s2))"

text \<open>\<open>msg0\<close> is what the uninitialised local \<^verbatim>\<open>co_msg_t msg\<close> holds on entry.\<close>

definition coNMTWaitBoot ::
  "nat \<Rightarrow> co_t \<Rightarrow> co_state \<Rightarrow> co_msg \<Rightarrow> u8 \<Rightarrow> fault + (c_int \<times> co_state)" where
  "coNMTWaitBoot fuel co s msg0 nodeId =
     (if \<not> (0 < nodeId \<and> nodeId \<le> 127) then Inl AssertionFailed
      else
        (case call_ms co s of
           (start, s1) \<Rightarrow> coNMTWaitBoot_loop fuel co nodeId start msg0 s1))"

subsection \<open>SYNC (\<^verbatim>\<open>coSYNC\<close>, \<^verbatim>\<open>coSYNCResetCounter\<close>)\<close>

text \<open>The first argument says whether \<^verbatim>\<open>CO_SYNC_COUNTER_ENABLE\<close> is defined.\<close>

definition coSYNC :: "bool \<Rightarrow> co_t \<Rightarrow> co_state \<Rightarrow> c_int \<times> co_state" where
  "coSYNC counter_enable co s =
     (if \<not> counter_enable then
        call_tx co s \<lparr>cobId = COB_ID_SYNC, len = 0, data = [0, 0, 0, 0, 0, 0, 0, 0]\<rparr>
      else
        let msg = \<lparr>cobId = COB_ID_SYNC, len = 1,
                   data = [syncCounter s, 0, 0, 0, 0, 0, 0, 0]\<rparr>
        in call_tx co (s\<lparr>syncCounter := syncCounter s + 1\<rparr>) msg)"

definition coSYNCResetCounter :: "co_state \<Rightarrow> c_int \<times> co_state" where
  "coSYNCResetCounter s = (0, s\<lparr>syncCounter := 1\<rparr>)"

subsection \<open>Process data (\<^verbatim>\<open>coTPDO\<close>, \<^verbatim>\<open>coRPDO\<close>)\<close>

text \<open>\<open>dat\<close> is the caller's buffer, of at least \<open>n\<close> bytes.\<close>

definition coTPDO ::
  "co_t \<Rightarrow> co_state \<Rightarrow> u8 \<Rightarrow> u8 list \<Rightarrow> size_t \<Rightarrow> fault + (c_int \<times> co_state)" where
  "coTPDO co s nodeId dat n =
     (if \<not> (0 < nodeId \<and> nodeId \<le> 127) then Inl AssertionFailed
      else if \<not> (0 < n \<and> n \<le> 8) then Inl AssertionFailed
      else
        Inr (call_tx co s
          \<lparr>cobId = COB_ID_RPDO1 + ucast nodeId, len = ucast n,
           data = take (unat n) dat @ drop (unat n) [0, 0, 0, 0, 0, 0, 0, 0]\<rparr>))"

text \<open>
  \<open>dat\<close> and \<open>n\<close> are what the caller's \<^verbatim>\<open>data\<close> buffer and \<^verbatim>\<open>*len\<close> hold on entry; the
  result carries what they hold on return. \<open>msg0\<close> is what the uninitialised local
  frame holds on entry. The \<^verbatim>\<open>memcpy\<close> of \<^verbatim>\<open>msg.len\<close> bytes is modelled for lengths up
  to 8, the size of \<^verbatim>\<open>msg.data\<close>.
\<close>

definition coRPDO ::
  "co_t \<Rightarrow> co_state \<Rightarrow> co_msg \<Rightarrow> u8 \<Rightarrow> u8 list \<Rightarrow> size_t \<Rightarrow>
   fault + (c_int \<times> u8 list \<times> size_t \<times> co_state)" where
  "coRPDO co s msg0 nodeId dat n =
     (if \<not> (0 < nodeId \<and> nodeId \<le> 127) then Inl AssertionFailed
      else
        (case call_rx co s msg0 of
           (ret, msg, s1) \<Rightarrow>
             if 0 \<noteq> ret then Inr (ret, dat, n, s1)
             else
               let cob = getCOBIDType msg;
                   rxNodeId = getNodeId msg
               in if COB_ID_EMCY = cob then
                    let eec = (ucast (data msg ! 0) OR push_bit 8 (ucast (data msg ! 1)) :: u32)
                    in Inr (1, dat, n,
                         s1\<lparr>emcy_log := emcy_log s1 @
                           [\<lparr>emcy_nodeId = rxNodeId, emcy_eec = ucast eec,
                             emcy_er = data msg ! 2, emcy_msef = drop 3 (data msg)\<rparr>]\<rparr>)
                  else if COB_ID_TPDO1 = cob \<and> nodeId = rxNodeId then
                    Inr (0, take (unat (len msg)) (data msg) @ drop (unat (len msg)) dat,
                         ucast (len msg), s1)
                  else Inr (1, dat, n, s1)))"

subsection \<open>SDO client (\<^verbatim>\<open>coSDOWrite\<close>, \<^verbatim>\<open>coSDORead\<close>)\<close>

text \<open>The frames the two functions build before sending.\<close>

definition sdoWriteRequest :: "u8 \<Rightarrow> u16 \<Rightarrow> u8 \<Rightarrow> u32 \<Rightarrow> size_t \<Rightarrow> co_msg" where
  "sdoWriteRequest nodeId index subIndex dat n =
     (let nField = (ucast (push_bit 2 (4 - n)) :: u8)
      in \<lparr>cobId = COB_ID_RSDO + ucast nodeId, len = 8,
          data = [0x23 OR nField,
                  ucast (index AND 0xff), ucast (drop_bit 8 index AND 0xff),
                  subIndex,
                  ucast (dat AND 0xff),
                  if 1 < n then ucast (drop_bit 8 dat AND 0xff) else 0x00,
                  if 2 < n then ucast (drop_bit 16 dat AND 0xff) else 0x00,
                  if 3 < n then ucast (drop_bit 24 dat AND 0xff) else 0x00]\<rparr>)"

definition sdoReadRequest :: "u8 \<Rightarrow> u16 \<Rightarrow> u8 \<Rightarrow> co_msg" where
  "sdoReadRequest nodeId index subIndex =
     \<lparr>cobId = COB_ID_RSDO + ucast nodeId, len = 8,
      data = [0x40, ucast (index AND 0xff), ucast (drop_bit 8 index AND 0xff), subIndex,
              0, 0, 0, 0]\<rparr>"

text \<open>The first six conjuncts of the \<^verbatim>\<open>if\<close> in both loops.\<close>

definition isSDOResponse :: "u8 \<Rightarrow> u16 \<Rightarrow> u8 \<Rightarrow> co_msg \<Rightarrow> bool" where
  "isSDOResponse nodeId index subIndex msg =
     (COB_ID_TSDO = getCOBIDType msg \<and> nodeId = getNodeId msg \<and> 8 = len msg \<and>
      ucast (index AND 0xff) = data msg ! 1 \<and>
      ucast (drop_bit 8 index AND 0xff) = data msg ! 2 \<and>
      subIndex = data msg ! 3)"

fun coSDOWrite_loop ::
  "nat \<Rightarrow> co_t \<Rightarrow> u8 \<Rightarrow> u16 \<Rightarrow> u8 \<Rightarrow> u32 \<Rightarrow> co_msg \<Rightarrow> co_state \<Rightarrow> fault + (u32 \<times> co_state)" where
  "coSDOWrite_loop 0 co nodeId index subIndex start msg s = Inl FuelExhausted"
| "coSDOWrite_loop (Suc k) co nodeId index subIndex start msg s =
     (case call_rx co s msg of
        (ret, msg', s1) \<Rightarrow>
          if ret = -1 then Inr (ret, s1)
          else if isSDOResponse nodeId index subIndex msg' then
            (if data msg' ! 0 AND 0xf0 = 0x20 \<or> data msg' ! 0 AND 0xf0 = 0x60
             then Inr (0, s1) else Inr (-1, s1))
          else
            (case haveTimeout co s1 start CO_TIMEOUT_SDO of
               Inl f \<Rightarrow> Inl f
             | Inr (t, s2) \<Rightarrow>
                 if 0 \<noteq> t then Inr (-1, s2)
                 else coSDOWrite_loop k co nodeId index subIndex start msg' s2))"

definition coSDOWrite ::
  "nat \<Rightarrow> co_t \<Rightarrow> co_state \<Rightarrow> u8 \<Rightarrow> u16 \<Rightarrow> u8 \<Rightarrow> u32 \<Rightarrow> size_t \<Rightarrow> fault + (u32 \<times> co_state)" where
  "coSDOWrite fuel co s nodeId index subIndex dat n =
     (if \<not> (0 < nodeId \<and> nodeId \<le> 127) then Inl AssertionFailed
      else if \<not> (0 < n \<and> n \<le> 4) then Inl AssertionFailed
      else
        let msg = sdoWriteRequest nodeId index subIndex dat n
        in (case call_tx co s msg of
              (ret, s1) \<Rightarrow>
                if 0 \<noteq> ret then Inr (ret, s1)
                else
                  (case call_ms co s1 of
                     (start, s2) \<Rightarrow>
                       coSDOWrite_loop fuel co nodeId index subIndex start msg s2)))"

text \<open>
  \<open>out\<close> is what the caller's \<^verbatim>\<open>*data\<close> holds; the result carries what it holds on
  return. \<open>n\<close> is the requested length and \<open>nField\<close> the byte
  \<^verbatim>\<open>(4 - len) << 2\<close>. The shifted bytes are combined as \<^verbatim>\<open>int\<close> and stored as
  \<^verbatim>\<open>uint32_t\<close>: the same 32 bits.
\<close>

fun coSDORead_loop ::
  "nat \<Rightarrow> co_t \<Rightarrow> u8 \<Rightarrow> u16 \<Rightarrow> u8 \<Rightarrow> size_t \<Rightarrow> u8 \<Rightarrow> u32 \<Rightarrow> co_msg \<Rightarrow> u32 \<Rightarrow> co_state \<Rightarrow>
   fault + (u32 \<times> u32 \<times> co_state)" where
  "coSDORead_loop 0 co nodeId index subIndex n nField start msg out s = Inl FuelExhausted"
| "coSDORead_loop (Suc k) co nodeId index subIndex n nField start msg out s =
     (case call_rx co s msg of
        (ret, msg', s1) \<Rightarrow>
          if ret = -1 then Inr (ret, out, s1)
          else if isSDOResponse nodeId index subIndex msg' \<and>
                  0x03 = data msg' ! 0 AND 0x03 \<and> nField = data msg' ! 0 AND 0x0c then
            (if data msg' ! 0 AND 0xf0 = 0x40 \<or> data msg' ! 0 AND 0xf0 = 0x60
             then
               Inr (0,
                 ucast (data msg' ! 4) OR
                 (if 1 < n then push_bit 8 (ucast (data msg' ! 5)) else 0x00) OR
                 (if 2 < n then push_bit 16 (ucast (data msg' ! 6)) else 0x00) OR
                 (if 3 < n then push_bit 24 (ucast (data msg' ! 7)) else 0x00),
                 s1)
             else Inr (-1, out, s1))
          else
            (case haveTimeout co s1 start CO_TIMEOUT_SDO of
               Inl f \<Rightarrow> Inl f
             | Inr (t, s2) \<Rightarrow>
                 if 0 \<noteq> t then Inr (-1, out, s2)
                 else coSDORead_loop k co nodeId index subIndex n nField start msg' out s2))"

definition coSDORead ::
  "nat \<Rightarrow> co_t \<Rightarrow> co_state \<Rightarrow> u8 \<Rightarrow> u16 \<Rightarrow> u8 \<Rightarrow> u32 \<Rightarrow> size_t \<Rightarrow>
   fault + (u32 \<times> u32 \<times> co_state)" where
  "coSDORead fuel co s nodeId index subIndex out n =
     (if \<not> (0 < nodeId \<and> nodeId \<le> 127) then Inl AssertionFailed
      else if \<not> (0 < n \<and> n \<le> 4) then Inl AssertionFailed
      else
        let msg = sdoReadRequest nodeId index subIndex
        in (case call_tx co s msg of
              (ret, s1) \<Rightarrow>
                if 0 \<noteq> ret then Inr (ret, out, s1)
                else
                  (case call_ms co s1 of
                     (start, s2) \<Rightarrow>
                       coSDORead_loop fuel co nodeId index subIndex n
                         (ucast (push_bit 2 (4 - n))) start msg out s2)))"

subsection \<open>Runs of the callbacks\<close>

text \<open>
  \<open>msg_after co r msg i\<close> is what the local frame of a polling loop holds after \<open>i\<close> more
  calls of the receive callback, when it holds \<open>msg\<close> before call number \<open>r\<close>.
\<close>

fun msg_after :: "co_t \<Rightarrow> nat \<Rightarrow> co_msg \<Rightarrow> nat \<Rightarrow> co_msg" where
  "msg_after co r msg 0 = msg"
| "msg_after co r msg (Suc i) =
     msg_after co (Suc r) (case snd (rx co r) of None \<Rightarrow> msg | Some m \<Rightarrow> m) i"

text \<open>\<open>n\<close> calls of \<^verbatim>\<open>coSYNC\<close> in a row, as the cyclic timer of \<^verbatim>\<open>example.c\<close> makes them
  (it drops the return value).\<close>

fun coSYNC_times :: "nat \<Rightarrow> bool \<Rightarrow> co_t \<Rightarrow> co_state \<Rightarrow> co_state" where
  "coSYNC_times 0 counter_enable co s = s"
| "coSYNC_times (Suc n) counter_enable co s =
     coSYNC_times n counter_enable co (snd (coSYNC counter_enable co s))"

text \<open>
  Concrete callbacks and states for the examples: \<open>bus replies ticks\<close> answers the n-th
  receive call with \<open>replies ! n\<close> (and with \<open>(1, None)\<close>, no data, once the list is used
  up), accepts every frame sent, and shows the clock value \<open>ticks ! n\<close> at the n-th
  reading (the last one again once the list is used up).
\<close>

definition bus :: "(c_int \<times> co_msg option) list \<Rightarrow> u32 list \<Rightarrow> co_t" where
  "bus replies ticks =
     \<lparr>rx = (\<lambda>n. if n < length replies then replies ! n else (1, None)),
      tx = (\<lambda>n msg. 0),
      ms = (\<lambda>n. if n < length ticks then ticks ! n else last ticks)\<rparr>"

definition fresh :: co_state where
  "fresh = \<lparr>rx_calls = 0, ms_calls = 0, tx_log = [], emcy_log = [], syncCounter = 0\<rparr>"

definition frame :: "u16 \<Rightarrow> u8 list \<Rightarrow> co_msg" where
  "frame ident payload =
     \<lparr>cobId = ident, len = of_nat (length payload),
      data = payload @ replicate (8 - length payload) 0\<rparr>"

section \<open>Properties\<close>

subsection \<open>Signed and unsigned readings of a 32 bit word\<close>

lemma sint32_cases: "sint (d::32 word) = (if uint d < 2^31 then uint d else uint d - 2^32)"
proof -
  have b: "0 \<le> uint d" "uint d < 2^32" using uint_lt2p [of d] by simp_all
  have "bit (uint d) 31 \<longleftrightarrow> 2^31 \<le> uint d"
  proof -
    have "uint d div 2^31 = (if 2^31 \<le> uint d then 1 else 0)"
      using b by (auto intro!: int_div_pos_eq [where r = "uint d - 2^31"])
    then show ?thesis by (simp add: bit_iff_odd)
  qed
  then show ?thesis
    using b by (simp add: sint_uint signed_take_bit_eq_take_bit_minus take_bit_int_eq_self)
qed

lemma uint_neg32: "uint (- d :: 32 word) = (if d = 0 then 0 else 2^32 - uint d)"
proof (cases "d = 0")
  case True
  then show ?thesis by simp
next
  case False
  then have "uint d \<noteq> 0" by (simp add: uint_0_iff)
  then have "0 < uint d" using uint_ge_0 [of d] by linarith
  moreover have "uint d < 2^32" using uint_lt2p [of d] by simp
  ultimately show ?thesis using False
    by (simp add: uint_word_ariths(4) zmod_zminus1_eq_if)
qed

lemma uint_abs32: "uint (if d <s 0 then - d else d :: 32 word) = \<bar>sint d\<bar>"
  using uint_lt2p [of d]
  by (auto simp add: word_sless_alt sint32_cases uint_neg32 split: if_splits)

subsection \<open>The timeout check\<close>

lemma haveTimeout_eq:
  "timeout < 0x7FFFFFFF \<Longrightarrow>
   haveTimeout co s start timeout =
     Inr (if uint timeout \<le> \<bar>sint (ms co (ms_calls s) - start)\<bar> then -1 else 0,
          s\<lparr>ms_calls := Suc (ms_calls s)\<rparr>)"
  by (simp add: haveTimeout_def call_ms_def Let_def word_le_def flip: uint_abs32)

lemma haveTimeout_not_yet:
  assumes "timeout < 0x7FFFFFFF" and "ms co (ms_calls s) - start < timeout"
  shows "haveTimeout co s start timeout = Inr (0, s\<lparr>ms_calls := Suc (ms_calls s)\<rparr>)"
proof -
  let ?d = "ms co (ms_calls s) - start"
  have "uint ?d < uint timeout" using assms(2) by (simp add: word_less_def)
  moreover have "uint timeout < 2^31" using assms(1) by (simp add: word_less_def)
  ultimately have "\<bar>sint ?d\<bar> < uint timeout"
    by (simp add: sint32_cases)
  then show ?thesis using assms(1) by (simp add: haveTimeout_eq)
qed

lemma haveTimeout_expired:
  assumes "timeout < 0x7FFFFFFF" and "timeout \<le> ms co (ms_calls s) - start"
    and "ms co (ms_calls s) - start \<le> 0x80000000"
  shows "haveTimeout co s start timeout = Inr (-1, s\<lparr>ms_calls := Suc (ms_calls s)\<rparr>)"
proof -
  let ?d = "ms co (ms_calls s) - start"
  have "uint timeout \<le> uint ?d" using assms(2) by (simp add: word_le_def)
  moreover have "uint timeout < 2^31" using assms(1) by (simp add: word_less_def)
  moreover have "uint ?d \<le> 2^31" using assms(3) by (simp add: word_le_def)
  ultimately have "uint timeout \<le> \<bar>sint ?d\<bar>"
    by (simp add: sint32_cases)
  then show ?thesis using assms(1) by (simp add: haveTimeout_eq)
qed

text \<open>
  Claim C1, as the code has it. For every start value, every clock value \<open>now\<close> and every
  bound below \<open>0x7FFFFFFF\<close> (the bound \<^verbatim>\<open>haveTimeout\<close> asserts), \<^verbatim>\<open>haveTimeout\<close> returns
  \<open>-1\<close> (timeout) or \<open>0\<close>, and \<open>-1\<close> exactly when the absolute value of the difference
  \<open>now - start\<close>, read as a signed 32 bit number, is at least the bound. So whenever the
  elapsed time \<open>now - start\<close>, taken modulo \<open>2^32\<close>, is below \<open>2^31\<close>, the check reports a
  timeout exactly when the elapsed time is at least the bound, also when the counter
  has wrapped between \<open>start\<close> and \<open>now\<close>.
\<close>

theorem haveTimeout_abs_difference:
  "bound < 0x7FFFFFFF \<Longrightarrow> ms co (ms_calls s) = now \<Longrightarrow>
   (\<exists>r. haveTimeout co s start bound = Inr (r, s\<lparr>ms_calls := Suc (ms_calls s)\<rparr>) \<and>
        (r = -1 \<or> r = 0) \<and>
        (r = -1 \<longleftrightarrow> uint bound \<le> \<bar>sint (now - start)\<bar>) \<and>
        (now - start < 0x80000000 \<longrightarrow> (r = -1 \<longleftrightarrow> bound \<le> now - start)))"
proof -
  assume b: "bound < 0x7FFFFFFF" and n: "ms co (ms_calls s) = now"
  let ?d = "now - start"
  have "uint ?d < 2^31 \<Longrightarrow> \<bar>sint ?d\<bar> = uint ?d"
    by (simp add: sint32_cases)
  then have "?d < 0x80000000 \<Longrightarrow> (uint bound \<le> \<bar>sint ?d\<bar>) = (bound \<le> ?d)"
    by (simp add: word_less_def word_le_def)
  then show ?thesis
    using b n by (simp add: haveTimeout_eq)
qed

text \<open>The two examples of the claim: the counter wraps between \<open>0xFFFFFFF0\<close> and
  \<open>0x00000010\<close> (32 ms, no timeout at a bound of 100) and between \<open>0xFFFFFFF0\<close> and
  \<open>0x00000100\<close> (272 ms, timeout).\<close>

theorem haveTimeout_abs_difference_witness:
  "haveTimeout (bus [] [0x00000010]) fresh 0xFFFFFFF0 100 = Inr (0, fresh\<lparr>ms_calls := 1\<rparr>) \<and>
   (0x00000010 - 0xFFFFFFF0 :: u32) = 32 \<and>
   haveTimeout (bus [] [0x00000100]) fresh 0xFFFFFFF0 100 = Inr (-1, fresh\<lparr>ms_calls := 1\<rparr>)"
proof -
  have 1: "ms (bus [] [0x00000010]) (ms_calls fresh) = 0x00000010"
    and 2: "ms (bus [] [0x00000100]) (ms_calls fresh) = 0x00000100"
    by (simp_all add: bus_def fresh_def)
  have b: "(100::u32) < 0x7FFFFFFF" by simp
  show ?thesis
    using haveTimeout_abs_difference [OF b 1, of "0xFFFFFFF0"]
      haveTimeout_abs_difference [OF b 2, of "0xFFFFFFF0"]
    by (auto simp: fresh_def)
qed

text \<open>
  Claim C1 as stated fails. With \<open>start = 1\<close>, \<open>now = 0\<close> and a bound of 100 the
  wrap-around difference \<open>now - start\<close> is \<open>0xFFFFFFFF\<close>, which is at least 100, and the
  check reports no timeout (it compares the absolute value 1). Read as a signed
  number instead, the difference of \<open>start = 200\<close> and \<open>now = 0\<close> is \<open>-200\<close>, which is not
  at least 100, and the check reports a timeout. At the bound \<open>0x7FFFFFFF\<close>, which is
  below \<open>2^31\<close>, the assertion of \<^verbatim>\<open>haveTimeout\<close> fails.
\<close>

theorem haveTimeout_wraparound_counterexample:
  "haveTimeout (bus [] [0]) fresh 1 100 = Inr (0, fresh\<lparr>ms_calls := 1\<rparr>) \<and>
   (100::u32) \<le> 0 - 1 \<and>
   haveTimeout (bus [] [0]) fresh 200 100 = Inr (-1, fresh\<lparr>ms_calls := 1\<rparr>) \<and>
   \<not> (100::u32) \<le>s 0 - 200 \<and>
   haveTimeout (bus [] [0]) fresh 0 0x7FFFFFFF = Inl AssertionFailed"
  by code_simp

subsection \<open>Identifiers: service class and node\<close>

lemma split128:
  fixes k q :: nat
  assumes "k < 128"
  shows "(128 * q + k) mod 128 = k" and "(128 * q + k) div 128 = q"
  using assms by simp_all

lemma mask_7f: "(0x7f :: 16 word) = mask 7" by (simp add: mask_eq_exp_minus_1)
lemma mask_780: "(0x780 :: 16 word) = push_bit 7 (mask 4)" by (simp add: mask_eq_exp_minus_1 push_bit_eq_mult)

lemma unat_and_7f: "unat (c AND 0x7f :: 16 word) = unat c mod 128"
proof -
  have "unat (c AND 0x7f) = take_bit 7 (unat c)"
    by (simp only: mask_7f unsigned_take_bit_eq flip: take_bit_eq_mask)
  then show ?thesis by (simp add: take_bit_eq_mod)
qed

lemma and_780: "(c :: 16 word) AND 0x780 = push_bit 7 (take_bit 4 (drop_bit 7 c))"
  unfolding mask_780 by (rule bit_eqI) (auto simp add: bit_simps)

lemma unat_and_780: "unat (c AND 0x780 :: 16 word) = (unat c div 128 mod 16) * 128"
proof -
  have "unat (c AND 0x780) = take_bit 16 (push_bit 7 (take_bit 4 (drop_bit 7 (unat c))))"
    by (simp only: and_780 unsigned_push_bit_eq unsigned_take_bit_eq unat_drop_bit_eq) simp
  also have "\<dots> = (unat c div 128 mod 16) * 128 mod 65536"
    by (simp add: take_bit_eq_mod drop_bit_eq_div push_bit_eq_mult)
  also have "\<dots> = (unat c div 128 mod 16) * 128"
  proof -
    have "unat c div 128 mod 16 < 16" by simp
    then have "(unat c div 128 mod 16) * 128 < 65536" by linarith
    then show ?thesis by simp
  qed
  finally show ?thesis .
qed

lemma unat_ucast_8_16: "unat (ucast (n :: 8 word) :: 16 word) = unat n"
proof -
  have "unat n < 2^8" using unsigned_less [of n, where 'a = nat] by simp
  then show ?thesis by (simp add: unsigned_ucast_eq take_bit_nat_eq_self)
qed

lemma ucast_16_8_eq: "(ucast (x::16 word) :: 8 word) = n \<longleftrightarrow> unat x mod 256 = unat n"
  by (simp add: word_eq_iff_unsigned [where 'a = nat] unsigned_ucast_eq take_bit_eq_mod)


lemma nat_split_128:
  fixes u k q :: nat
  assumes "u < 2048" "k < 128" "q < 16"
  shows "(u div 128 mod 16 * 128 = 128 * q \<and> u mod 128 = k) \<longleftrightarrow> u = 128 * q + k"
proof
  assume a: "u div 128 mod 16 * 128 = 128 * q \<and> u mod 128 = k"
  have "u div 128 < 16" using assms(1) by (simp add: less_mult_imp_div_less)
  then have "u div 128 * 128 = 128 * q" using a by simp
  moreover have "u = u div 128 * 128 + u mod 128" by simp
  ultimately show "u = 128 * q + k" using a by linarith
next
  assume "u = 128 * q + k"
  then show "u div 128 mod 16 * 128 = 128 * q \<and> u mod 128 = k"
    using assms(2,3) by (simp add: split128)
qed

lemma unat_base_plus_node:
  assumes "n \<le> 127" "unat b = 128 * q" "q < 16"
  shows "unat (b + ucast (n :: 8 word) :: 16 word) = 128 * q + unat n"
proof -
  have "unat n < 128" using assms(1) by (simp add: word_le_nat_alt)
  then have "128 * q + unat n < 65536" using assms(3) by linarith
  then show ?thesis by (simp add: unat_word_ariths unat_ucast_8_16 assms(2))
qed

lemma node_of_base:
  assumes "n \<le> 127" "unat b = 128 * q" "q < 16"
  shows "ucast ((b + ucast (n :: 8 word) :: 16 word) AND 0x7f) = n"
    and "(b + ucast n) AND 0x780 = b"
proof -
  have k: "unat n < 128" using assms(1) by (simp add: word_le_nat_alt)
  note u = unat_base_plus_node [OF assms]
  show "ucast ((b + ucast n) AND 0x7f) = n"
    using k by (simp add: ucast_16_8_eq unat_and_7f u split128)
  show "(b + ucast n) AND 0x780 = b"
    using k assms(3)
    by (simp add: word_eq_iff_unsigned [where 'a = nat] unat_and_780 u split128 assms(2))
qed

lemma cobId_eq_base_plus_node:
  assumes "n \<le> 127" "unat b = 128 * q" "q < 16" "(c :: 16 word) < 0x800"
  shows "(c AND 0x780 = b \<and> ucast (c AND 0x7f) = n) \<longleftrightarrow> c = b + ucast (n :: 8 word)"
proof -
  have k: "unat n < 128" using assms(1) by (simp add: word_le_nat_alt)
  have c: "unat c < 2048" using assms(4) by (simp add: word_less_nat_alt)
  have m: "unat c mod 128 mod 256 = unat c mod 128"
    by (simp add: mod_mod_cancel)
  have e1: "(c AND 0x780 = b) = (unat (c AND 0x780) = unat b)"
    by (fact word_eq_iff_unsigned)
  have e2: "(c = b + ucast n) = (unat c = unat (b + ucast n))"
    by (fact word_eq_iff_unsigned)
  show ?thesis
    unfolding e1 e2 ucast_16_8_eq unat_and_780 unat_and_7f m
      unat_base_plus_node [OF assms(1-3)] assms(2)
    by (rule nat_split_128 [OF c k assms(3)])
qed

subsection \<open>Waiting for the boot-up message\<close>

lemma call_rx_eq:
  "call_rx co s msg =
     (fst (rx co (rx_calls s)), msg_after co (rx_calls s) msg 1, s\<lparr>rx_calls := Suc (rx_calls s)\<rparr>)"
  by (simp add: call_rx_def split: prod.splits)

lemma msg_after_add:
  "msg_after co r msg (i + j) = msg_after co (r + i) (msg_after co r msg i) j"
  by (induction i arbitrary: r msg) simp_all

lemma isBootUp_iff:
  assumes "nodeId \<le> 127" and "cobId m < 0x800"
  shows "isBootUp nodeId m \<longleftrightarrow>
         cobId m = 0x700 + ucast nodeId \<and> len m = 1 \<and> data m ! 0 = 0"
proof -
  have "(cobId m AND 0x780 = 0x700 \<and> ucast (cobId m AND 0x7f) = nodeId) \<longleftrightarrow>
        cobId m = 0x700 + ucast nodeId"
    by (rule cobId_eq_base_plus_node [where q = 14]) (simp_all add: assms)
  then show ?thesis
    by (auto simp add: isBootUp_def getCOBIDType_def getNodeId_def COB_ID_HRTB_def)
qed

lemma nmt_loop_step:
  assumes "fst (rx co (rx_calls s)) \<noteq> -1"
    and "\<not> isBootUp nodeId (msg_after co (rx_calls s) msg 1)"
    and "ms co (ms_calls s) - start < CO_TIMEOUT_NMT"
  shows "coNMTWaitBoot_loop (Suc n) co nodeId start msg s =
         coNMTWaitBoot_loop n co nodeId start (msg_after co (rx_calls s) msg 1)
           (s\<lparr>rx_calls := Suc (rx_calls s), ms_calls := Suc (ms_calls s)\<rparr>)"
proof -
  have "haveTimeout co (s\<lparr>rx_calls := Suc (rx_calls s)\<rparr>) start CO_TIMEOUT_NMT =
        Inr (0, s\<lparr>rx_calls := Suc (rx_calls s), ms_calls := Suc (ms_calls s)\<rparr>)"
    using assms(3) by (subst haveTimeout_not_yet) (simp_all add: CO_TIMEOUT_NMT_def)
  then show ?thesis
    using assms(1,2) by (simp add: call_rx_eq del: msg_after.simps)
qed

lemma nmt_loop_match:
  assumes "fst (rx co (rx_calls s)) \<noteq> -1"
    and "isBootUp nodeId (msg_after co (rx_calls s) msg 1)"
  shows "coNMTWaitBoot_loop (Suc n) co nodeId start msg s =
         Inr (0, s\<lparr>rx_calls := Suc (rx_calls s)\<rparr>)"
  using assms by (simp add: call_rx_eq del: msg_after.simps)

lemma nmt_loop_timeout:
  assumes "fst (rx co (rx_calls s)) \<noteq> -1"
    and "\<not> isBootUp nodeId (msg_after co (rx_calls s) msg 1)"
    and "CO_TIMEOUT_NMT \<le> ms co (ms_calls s) - start"
    and "ms co (ms_calls s) - start \<le> 0x80000000"
  shows "coNMTWaitBoot_loop (Suc n) co nodeId start msg s =
         Inr (-1, s\<lparr>rx_calls := Suc (rx_calls s), ms_calls := Suc (ms_calls s)\<rparr>)"
proof -
  have "haveTimeout co (s\<lparr>rx_calls := Suc (rx_calls s)\<rparr>) start CO_TIMEOUT_NMT =
        Inr (-1, s\<lparr>rx_calls := Suc (rx_calls s), ms_calls := Suc (ms_calls s)\<rparr>)"
    using assms(3,4) by (subst haveTimeout_expired) (simp_all add: CO_TIMEOUT_NMT_def)
  then show ?thesis
    using assms(1,2) by (simp add: call_rx_eq del: msg_after.simps)
qed

lemma nmt_loop_skip:
  assumes "\<forall>i<k. fst (rx co (rx_calls s + i)) \<noteq> -1 \<and>
             \<not> isBootUp nodeId (msg_after co (rx_calls s) msg (Suc i)) \<and>
             ms co (ms_calls s + i) - start < CO_TIMEOUT_NMT"
  shows "coNMTWaitBoot_loop (k + n) co nodeId start msg s =
         coNMTWaitBoot_loop n co nodeId start (msg_after co (rx_calls s) msg k)
           (s\<lparr>rx_calls := rx_calls s + k, ms_calls := ms_calls s + k\<rparr>)"
  using assms
proof (induction k arbitrary: msg s)
  case 0
  then show ?case by simp
next
  case (Suc k)
  let ?m = "msg_after co (rx_calls s) msg 1"
  let ?s = "s\<lparr>rx_calls := Suc (rx_calls s), ms_calls := Suc (ms_calls s)\<rparr>"
  from Suc.prems have first: "fst (rx co (rx_calls s)) \<noteq> -1"
    "\<not> isBootUp nodeId ?m" "ms co (ms_calls s) - start < CO_TIMEOUT_NMT"
    by (auto dest: spec [where x = 0])
  have rest: "\<forall>i<k. fst (rx co (rx_calls ?s + i)) \<noteq> -1 \<and>
             \<not> isBootUp nodeId (msg_after co (rx_calls ?s) ?m (Suc i)) \<and>
             ms co (ms_calls ?s + i) - start < CO_TIMEOUT_NMT"
  proof (intro allI impI)
    fix i assume "i < k"
    then have "Suc i < Suc k" by simp
    with Suc.prems show "fst (rx co (rx_calls ?s + i)) \<noteq> -1 \<and>
             \<not> isBootUp nodeId (msg_after co (rx_calls ?s) ?m (Suc i)) \<and>
             ms co (ms_calls ?s + i) - start < CO_TIMEOUT_NMT"
      by (auto dest!: spec [where x = "Suc i"])
  qed
  have "coNMTWaitBoot_loop (Suc k + n) co nodeId start msg s =
        coNMTWaitBoot_loop (k + n) co nodeId start ?m ?s"
    using nmt_loop_step [OF first] by simp
  also have "\<dots> = coNMTWaitBoot_loop n co nodeId start (msg_after co (rx_calls ?s) ?m k)
           (?s\<lparr>rx_calls := rx_calls ?s + k, ms_calls := ms_calls ?s + k\<rparr>)"
    by (rule Suc.IH [OF rest])
  finally show ?case by simp
qed


text \<open>
  A run of \<^verbatim>\<open>coNMTWaitBoot\<close> in terms of what the local \<^verbatim>\<open>msg\<close> holds after each poll,
  whether the poll stored a frame or not: while that is not a boot-up message of the
  node and the bound has not elapsed the loop goes on; it returns 0 at the first poll
  after which \<^verbatim>\<open>msg\<close> holds one, and \<open>-1\<close> at a poll after which it does not and the
  bound has elapsed.
\<close>

lemma nmt_wait_run:
  assumes "0 < nodeId" and "nodeId \<le> 127"
    and "\<forall>i<k. fst (rx co (rx_calls s + i)) \<noteq> -1 \<and>
           \<not> isBootUp nodeId (msg_after co (rx_calls s) msg0 (Suc i)) \<and>
           ms co (Suc (ms_calls s) + i) - ms co (ms_calls s) < CO_TIMEOUT_NMT"
    and "fst (rx co (rx_calls s + k)) \<noteq> -1"
  shows "(cobId m < 0x800 \<longrightarrow>
           isBootUp nodeId m = (cobId m = 0x700 + ucast nodeId \<and> len m = 1 \<and> data m ! 0 = 0)) \<and>
         (isBootUp nodeId (msg_after co (rx_calls s) msg0 (Suc k)) \<longrightarrow>
           coNMTWaitBoot (Suc (k + n)) co s msg0 nodeId =
             Inr (0, s\<lparr>rx_calls := rx_calls s + Suc k, ms_calls := ms_calls s + Suc k\<rparr>)) \<and>
         (\<not> isBootUp nodeId (msg_after co (rx_calls s) msg0 (Suc k)) \<and>
          CO_TIMEOUT_NMT \<le> ms co (Suc (ms_calls s) + k) - ms co (ms_calls s) \<and>
          ms co (Suc (ms_calls s) + k) - ms co (ms_calls s) \<le> 0x80000000 \<longrightarrow>
           coNMTWaitBoot (Suc (k + n)) co s msg0 nodeId =
             Inr (-1, s\<lparr>rx_calls := rx_calls s + Suc k, ms_calls := ms_calls s + Suc (Suc k)\<rparr>))"
proof -
  let ?start = "ms co (ms_calls s)"
  let ?s1 = "s\<lparr>ms_calls := Suc (ms_calls s)\<rparr>"
  let ?sk = "?s1\<lparr>rx_calls := rx_calls ?s1 + k, ms_calls := ms_calls ?s1 + k\<rparr>"
  let ?mk = "msg_after co (rx_calls s) msg0 k"
  have entry: "coNMTWaitBoot fuel co s msg0 nodeId =
        coNMTWaitBoot_loop fuel co nodeId ?start msg0 ?s1" for fuel
    using assms(1,2) by (simp add: coNMTWaitBoot_def call_ms_def)
  have "\<forall>i<k. fst (rx co (rx_calls ?s1 + i)) \<noteq> -1 \<and>
           \<not> isBootUp nodeId (msg_after co (rx_calls ?s1) msg0 (Suc i)) \<and>
           ms co (ms_calls ?s1 + i) - ?start < CO_TIMEOUT_NMT"
    using assms(3) by simp
  then have skip: "coNMTWaitBoot_loop (k + Suc n) co nodeId ?start msg0 ?s1 =
        coNMTWaitBoot_loop (Suc n) co nodeId ?start (msg_after co (rx_calls ?s1) msg0 k) ?sk"
    by (rule nmt_loop_skip)
  have last: "msg_after co (rx_calls ?sk) ?mk 1 = msg_after co (rx_calls s) msg0 (Suc k)"
    using msg_after_add [of co "rx_calls s" msg0 k 1] by simp
  have rxk: "fst (rx co (rx_calls ?sk)) \<noteq> -1"
    using assms(4) by simp
  have run: "coNMTWaitBoot (Suc (k + n)) co s msg0 nodeId =
        coNMTWaitBoot_loop (Suc n) co nodeId ?start ?mk ?sk"
    using skip by (simp add: entry)
  have matcher: "cobId m < 0x800 \<longrightarrow>
      isBootUp nodeId m = (cobId m = 0x700 + ucast nodeId \<and> len m = 1 \<and> data m ! 0 = 0)"
    using isBootUp_iff [OF assms(2)] by blast
  have found: "coNMTWaitBoot (Suc (k + n)) co s msg0 nodeId =
        Inr (0, s\<lparr>rx_calls := rx_calls s + Suc k, ms_calls := ms_calls s + Suc k\<rparr>)"
    if "isBootUp nodeId (msg_after co (rx_calls s) msg0 (Suc k))"
  proof -
    have "isBootUp nodeId (msg_after co (rx_calls ?sk) ?mk 1)"
      unfolding last by (rule that)
    from nmt_loop_match [OF rxk this] show ?thesis
      by (simp add: run del: coNMTWaitBoot_loop.simps)
  qed
  have expired: "coNMTWaitBoot (Suc (k + n)) co s msg0 nodeId =
        Inr (-1, s\<lparr>rx_calls := rx_calls s + Suc k, ms_calls := ms_calls s + Suc (Suc k)\<rparr>)"
    if "\<not> isBootUp nodeId (msg_after co (rx_calls s) msg0 (Suc k))"
      and "CO_TIMEOUT_NMT \<le> ms co (Suc (ms_calls s) + k) - ?start"
      and "ms co (Suc (ms_calls s) + k) - ?start \<le> 0x80000000"
  proof -
    have 1: "\<not> isBootUp nodeId (msg_after co (rx_calls ?sk) ?mk 1)"
      unfolding last by (rule that(1))
    have 2: "CO_TIMEOUT_NMT \<le> ms co (ms_calls ?sk) - ?start"
      and 3: "ms co (ms_calls ?sk) - ?start \<le> 0x80000000"
      using that(2,3) by simp_all
    from nmt_loop_timeout [OF rxk 1 2 3] show ?thesis
      by (simp add: run del: coNMTWaitBoot_loop.simps)
  qed
  from matcher found expired show ?thesis by blast
qed


lemma msg_after_end:
  "msg_after co r msg (Suc i) =
     (case snd (rx co (r + i)) of None \<Rightarrow> msg_after co r msg i | Some m \<Rightarrow> m)"
  using msg_after_add [of co r msg i 1] by simp

lemma stale_not_bootup:
  assumes "\<not> isBootUp nodeId msg0"
    and "\<forall>i<k. rx co (r + i) = (1, None) \<or>
               (\<exists>f. rx co (r + i) = (0, Some f) \<and> \<not> isBootUp nodeId f)"
  shows "j \<le> k \<Longrightarrow> \<not> isBootUp nodeId (msg_after co r msg0 j)"
proof (induction j)
  case 0
  then show ?case using assms(1) by simp
next
  case (Suc j)
  then have "j < k" and ih: "\<not> isBootUp nodeId (msg_after co r msg0 j)" by simp_all
  with assms(2) have "rx co (r + j) = (1, None) \<or>
               (\<exists>f. rx co (r + j) = (0, Some f) \<and> \<not> isBootUp nodeId f)" by blast
  then show ?case
    using ih by (auto simp add: msg_after_end simp del: msg_after.simps)
qed

text \<open>
  Boot-up wait over frames that were received. Let the node be 1 to 127, let the
  uninitialised \<^verbatim>\<open>msg\<close> not hold a boot-up message of the node, and let each of the first
  \<open>k\<close> polls either return 1 (no data) and leave \<^verbatim>\<open>msg\<close> as it was, or return 0 with a
  frame that is not a boot-up message of the node, each within the bound
  \<^verbatim>\<open>CO_TIMEOUT_NMT\<close> of the start time. Then
  \<^item> if the next poll returns 0 with a boot-up message of the node, the call returns 0
    (success) there;
  \<^item> if the next poll is again one of the two kinds above and the bound has elapsed, the
    call returns \<open>-1\<close> (timeout).
  Fuel \<open>k + 1\<close> is enough for the call to return, and more fuel changes nothing.
\<close>

theorem coNMTWaitBoot_received_frames:
  assumes "0 < nodeId" and "nodeId \<le> 127"
    and "\<not> isBootUp nodeId msg0"
    and "\<forall>i<k. (rx co (rx_calls s + i) = (1, None) \<or>
                (\<exists>f. rx co (rx_calls s + i) = (0, Some f) \<and> \<not> isBootUp nodeId f)) \<and>
               ms co (Suc (ms_calls s) + i) - ms co (ms_calls s) < CO_TIMEOUT_NMT"
  shows "(rx co (rx_calls s + k) = (0, Some m) \<and> isBootUp nodeId m \<longrightarrow>
           coNMTWaitBoot (Suc (k + n)) co s msg0 nodeId =
             Inr (0, s\<lparr>rx_calls := rx_calls s + Suc k, ms_calls := ms_calls s + Suc k\<rparr>)) \<and>
         ((rx co (rx_calls s + k) = (1, None) \<or>
           (\<exists>f. rx co (rx_calls s + k) = (0, Some f) \<and> \<not> isBootUp nodeId f)) \<and>
          CO_TIMEOUT_NMT \<le> ms co (Suc (ms_calls s) + k) - ms co (ms_calls s) \<and>
          ms co (Suc (ms_calls s) + k) - ms co (ms_calls s) \<le> 0x80000000 \<longrightarrow>
           coNMTWaitBoot (Suc (k + n)) co s msg0 nodeId =
             Inr (-1, s\<lparr>rx_calls := rx_calls s + Suc k, ms_calls := ms_calls s + Suc (Suc k)\<rparr>))"
proof -
  let ?r = "rx_calls s"
  have polls: "\<forall>i<k. rx co (?r + i) = (1, None) \<or>
               (\<exists>f. rx co (?r + i) = (0, Some f) \<and> \<not> isBootUp nodeId f)"
    using assms(4) by blast
  have skip: "\<forall>i<k. fst (rx co (?r + i)) \<noteq> -1 \<and>
           \<not> isBootUp nodeId (msg_after co ?r msg0 (Suc i)) \<and>
           ms co (Suc (ms_calls s) + i) - ms co (ms_calls s) < CO_TIMEOUT_NMT"
  proof (intro allI impI)
    fix i assume i: "i < k"
    then have "Suc i \<le> k" by simp
    then have "\<not> isBootUp nodeId (msg_after co ?r msg0 (Suc i))"
      by (rule stale_not_bootup [OF assms(3) polls])
    moreover have "fst (rx co (?r + i)) \<noteq> -1"
      using polls i by (auto dest!: spec [where x = i])
    moreover have "ms co (Suc (ms_calls s) + i) - ms co (ms_calls s) < CO_TIMEOUT_NMT"
      using assms(4) i by blast
    ultimately show "fst (rx co (?r + i)) \<noteq> -1 \<and>
           \<not> isBootUp nodeId (msg_after co ?r msg0 (Suc i)) \<and>
           ms co (Suc (ms_calls s) + i) - ms co (ms_calls s) < CO_TIMEOUT_NMT"
      by blast
  qed
  have stale: "\<not> isBootUp nodeId (msg_after co ?r msg0 k)"
    by (rule stale_not_bootup [OF assms(3) polls]) simp
  have found: "coNMTWaitBoot (Suc (k + n)) co s msg0 nodeId =
             Inr (0, s\<lparr>rx_calls := rx_calls s + Suc k, ms_calls := ms_calls s + Suc k\<rparr>)"
    if "rx co (?r + k) = (0, Some m) \<and> isBootUp nodeId m"
  proof -
    from that have 1: "fst (rx co (?r + k)) \<noteq> -1" by simp
    from that have 2: "isBootUp nodeId (msg_after co ?r msg0 (Suc k))"
      by (simp add: msg_after_end del: msg_after.simps)
    from nmt_wait_run [OF assms(1,2) skip 1, of m n] 2 show ?thesis by blast
  qed
  have expired: "coNMTWaitBoot (Suc (k + n)) co s msg0 nodeId =
             Inr (-1, s\<lparr>rx_calls := rx_calls s + Suc k, ms_calls := ms_calls s + Suc (Suc k)\<rparr>)"
    if "(rx co (?r + k) = (1, None) \<or>
           (\<exists>f. rx co (?r + k) = (0, Some f) \<and> \<not> isBootUp nodeId f)) \<and>
          CO_TIMEOUT_NMT \<le> ms co (Suc (ms_calls s) + k) - ms co (ms_calls s) \<and>
          ms co (Suc (ms_calls s) + k) - ms co (ms_calls s) \<le> 0x80000000"
  proof -
    from that have 1: "fst (rx co (?r + k)) \<noteq> -1" by auto
    from that stale have 2: "\<not> isBootUp nodeId (msg_after co ?r msg0 (Suc k))"
      by (auto simp add: msg_after_end simp del: msg_after.simps)
    from nmt_wait_run [OF assms(1,2) skip 1, of m n] 2 that show ?thesis by blast
  qed
  from found expired show ?thesis by blast
qed


text \<open>
  Two runs for node 5. In the first, a process data frame of node 5 and a poll without
  data come before the boot-up frame \<open>0x705 [0x00]\<close>: success at the third poll. In the
  second, an unrelated frame arrives, then nothing, and the clock reads 5000 ms at the
  second check: timeout.
\<close>

theorem coNMTWaitBoot_received_frames_witness:
  "coNMTWaitBoot 3
     (bus [(0, Some (frame 0x185 [1, 2])), (1, None), (0, Some (frame 0x705 [0]))] [10, 11, 12])
     fresh (frame 0 []) 5 = Inr (0, fresh\<lparr>rx_calls := 3, ms_calls := 3\<rparr>) \<and>
   coNMTWaitBoot 2 (bus [(0, Some (frame 0x185 [1, 2]))] [0, 10, 5000])
     fresh (frame 0 []) 5 = Inr (-1, fresh\<lparr>rx_calls := 2, ms_calls := 3\<rparr>)"
proof -
  let ?A = "bus [(0, Some (frame 0x185 [1, 2])), (1, None), (0, Some (frame 0x705 [0]))] [10, 11, 12]"
  let ?B = "bus [(0, Some (frame 0x185 [1, 2]))] [0, 10, 5000]"
  let ?g = "frame 0 []"
  have node: "(0::u8) < 5" "(5::u8) \<le> 127" by simp_all
  have two: "isBootUp 5 (frame 0x705 [0])" "\<not> isBootUp 5 (frame 0x185 [1, 2])"
    "\<not> isBootUp 5 ?g"
    by (simp_all add: isBootUp_def frame_def getCOBIDType_def getNodeId_def COB_ID_HRTB_def)
  have pollsA: "\<forall>i<2. (rx ?A (rx_calls fresh + i) = (1, None) \<or>
                (\<exists>f. rx ?A (rx_calls fresh + i) = (0, Some f) \<and> \<not> isBootUp 5 f)) \<and>
               ms ?A (Suc (ms_calls fresh) + i) - ms ?A (ms_calls fresh) < CO_TIMEOUT_NMT"
  proof (intro allI impI)
    fix i :: nat
    assume "i < 2"
    then consider "i = 0" | "i = 1" by linarith
    then show "(rx ?A (rx_calls fresh + i) = (1, None) \<or>
                (\<exists>f. rx ?A (rx_calls fresh + i) = (0, Some f) \<and> \<not> isBootUp 5 f)) \<and>
               ms ?A (Suc (ms_calls fresh) + i) - ms ?A (ms_calls fresh) < CO_TIMEOUT_NMT"
      by cases (simp_all add: bus_def fresh_def two CO_TIMEOUT_NMT_def)
  qed
  have lastA: "rx ?A (rx_calls fresh + 2) = (0, Some (frame 0x705 [0])) \<and>
      isBootUp 5 (frame 0x705 [0])"
    by (simp add: bus_def fresh_def two)
  have pollsB: "\<forall>i<1. (rx ?B (rx_calls fresh + i) = (1, None) \<or>
                (\<exists>f. rx ?B (rx_calls fresh + i) = (0, Some f) \<and> \<not> isBootUp 5 f)) \<and>
               ms ?B (Suc (ms_calls fresh) + i) - ms ?B (ms_calls fresh) < CO_TIMEOUT_NMT"
    by (simp add: bus_def fresh_def two CO_TIMEOUT_NMT_def)
  have lastB: "(rx ?B (rx_calls fresh + 1) = (1, None) \<or>
           (\<exists>f. rx ?B (rx_calls fresh + 1) = (0, Some f) \<and> \<not> isBootUp 5 f)) \<and>
          CO_TIMEOUT_NMT \<le> ms ?B (Suc (ms_calls fresh) + 1) - ms ?B (ms_calls fresh) \<and>
          ms ?B (Suc (ms_calls fresh) + 1) - ms ?B (ms_calls fresh) \<le> 0x80000000"
    by (simp add: bus_def fresh_def CO_TIMEOUT_NMT_def)
  from coNMTWaitBoot_received_frames [OF node two(3) pollsA, of "frame 0x705 [0]" 0] lastA
  have A: "coNMTWaitBoot 3 ?A fresh ?g 5 = Inr (0, fresh\<lparr>rx_calls := 3, ms_calls := 3\<rparr>)"
    by (simp add: fresh_def)
  from coNMTWaitBoot_received_frames [OF node two(3) pollsB, of ?g 0] lastB
  have B: "coNMTWaitBoot 2 ?B fresh ?g 5 = Inr (-1, fresh\<lparr>rx_calls := 2, ms_calls := 3\<rparr>)"
    by (simp add: fresh_def numeral_2_eq_2 numeral_3_eq_3)
  from A B show ?thesis by (rule conjI)
qed

text \<open>
  Claim C6 does not hold of the code: the loop of \<^verbatim>\<open>coNMTWaitBoot\<close> runs its matcher
  also when the receive callback has returned 1 (no data), on what the uninitialised
  or stale \<^verbatim>\<open>msg\<close> holds, so it can accept without a frame. Three runs for node 5:
  \<^item> no frame ever arrives, the clock reads 5000 ms at the first check and the
    uninitialised \<^verbatim>\<open>msg\<close> holds a boot-up frame of node 5: the call returns 0 (success),
    where the claim says timeout;
  \<^item> the same run with an uninitialised \<^verbatim>\<open>msg\<close> of zeros returns \<open>-1\<close> (timeout): the
    result depends on uninitialised memory;
  \<^item> only an unrelated frame arrives, and the next poll returns 1 after the callback
    has written a boot-up frame of node 5 to \<^verbatim>\<open>msg\<close>: the call returns 0.
\<close>

theorem coNMTWaitBoot_success_without_frame:
  "coNMTWaitBoot 1 (bus [] [0, 5000]) fresh (frame 0x705 [0]) 5 =
     Inr (0, fresh\<lparr>rx_calls := 1, ms_calls := 1\<rparr>) \<and>
   coNMTWaitBoot 1 (bus [] [0, 5000]) fresh (frame 0 []) 5 =
     Inr (-1, fresh\<lparr>rx_calls := 1, ms_calls := 2\<rparr>) \<and>
   coNMTWaitBoot 2 (bus [(0, Some (frame 0x185 [1, 2])), (1, Some (frame 0x705 [0]))] [0, 1, 2])
     fresh (frame 0 []) 5 =
     Inr (0, fresh\<lparr>rx_calls := 2, ms_calls := 2\<rparr>)"
  by code_simp



text \<open>
  Claim C2 does not hold of the code: the loops run their matcher in every iteration in
  which the receive callback has not returned \<open>-1\<close>, so also when it returned 1 (no
  data), on whatever the local \<^verbatim>\<open>msg\<close> holds then. \<^verbatim>\<open>coRPDO\<close> does test the return value
  first. Four runs for node 5 in which the only poll returns 1:
  \<^item> the callback has stored a boot-up frame of node 5 in \<^verbatim>\<open>msg\<close> all the same:
    \<^verbatim>\<open>coNMTWaitBoot\<close> returns 0;
  \<^item> the callback has left \<^verbatim>\<open>msg\<close> alone and the uninitialised \<^verbatim>\<open>msg\<close> holds a boot-up
    frame of node 5 (as a second call of \<^verbatim>\<open>coNMTWaitBoot\<close> can find it on the stack):
    \<^verbatim>\<open>coNMTWaitBoot\<close> returns 0;
  \<^item> the callback has stored a matching SDO response: \<^verbatim>\<open>coSDOWrite\<close> returns 0, and
    \<^verbatim>\<open>coSDORead\<close> returns 0 and the value \<open>0xDDCCBBAA\<close>.
\<close>

theorem poll_matches_without_frame:
  "coNMTWaitBoot 1 (bus [(1, Some (frame 0x705 [0]))] [0]) fresh (frame 0 []) 5 =
     Inr (0, fresh\<lparr>rx_calls := 1, ms_calls := 1\<rparr>) \<and>
   coNMTWaitBoot 1 (bus [(1, None)] [0]) fresh (frame 0x705 [0]) 5 =
     Inr (0, fresh\<lparr>rx_calls := 1, ms_calls := 1\<rparr>) \<and>
   coSDOWrite 1 (bus [(1, Some (frame 0x585 [0x60, 0x18, 0x10, 0x01, 0, 0, 0, 0]))] [0])
     fresh 5 0x1018 1 0x11223344 4 =
     Inr (0, fresh\<lparr>rx_calls := 1, ms_calls := 1,
               tx_log := [frame 0x605 [0x23, 0x18, 0x10, 0x01, 0x44, 0x33, 0x22, 0x11]]\<rparr>) \<and>
   coSDORead 1 (bus [(1, Some (frame 0x585 [0x43, 0x18, 0x10, 0x01, 0xAA, 0xBB, 0xCC, 0xDD]))] [0])
     fresh 5 0x1018 1 0 4 =
     Inr (0, 0xDDCCBBAA, fresh\<lparr>rx_calls := 1, ms_calls := 1,
               tx_log := [frame 0x605 [0x40, 0x18, 0x10, 0x01, 0, 0, 0, 0]]\<rparr>)"
  by code_simp


subsection \<open>SDO download (\<^verbatim>\<open>coSDOWrite\<close>)\<close>

lemma hi_nibble: "(x :: 8 word) AND 0xf0 = push_bit 4 (drop_bit 4 x)"
proof -
  have m: "(0xf0 :: 8 word) = push_bit 4 (mask 4)"
    by (simp add: mask_eq_exp_minus_1 push_bit_eq_mult)
  show ?thesis
    unfolding m by (rule bit_eqI) (auto simp add: bit_simps dest: bit_imp_le_length)
qed

lemma hi_nibble_eq:
  assumes "v < 16"
  shows "((x :: 8 word) AND 0xf0 = push_bit 4 (of_nat v)) \<longleftrightarrow> drop_bit 4 x = of_nat v"
proof -
  have d: "unat (drop_bit 4 x) < 16"
  proof -
    have "unat x < 256" using unsigned_less [of x, where 'a = nat] by simp
    then have "unat x div 16 < 16" by (simp add: less_mult_imp_div_less)
    then show ?thesis unfolding unat_drop_bit_eq by (simp add: drop_bit_eq_div)
  qed
  have v: "unat (of_nat v :: 8 word) = v"
    using assms by (simp add: unat_of_nat)
  have p: "unat (push_bit 4 y :: 8 word) = 16 * unat y" if "unat y < 16" for y :: "8 word"
  proof -
    have "unat y * 16 < 256" using that by linarith
    then show ?thesis by (simp add: push_bit_eq_mult unat_word_ariths)
  qed
  have "(push_bit 4 (drop_bit 4 x) = (push_bit 4 (of_nat v) :: 8 word)) \<longleftrightarrow>
        (unat (push_bit 4 (drop_bit 4 x)) = unat (push_bit 4 (of_nat v) :: 8 word))"
    by (fact word_eq_iff_unsigned)
  also have "\<dots> \<longleftrightarrow> unat (drop_bit 4 x) = v"
    using assms by (simp add: p [OF d] p v)
  also have "\<dots> \<longleftrightarrow> drop_bit 4 x = of_nat v"
  proof -
    have "(drop_bit 4 x = (of_nat v :: 8 word)) \<longleftrightarrow>
          (unat (drop_bit 4 x) = unat (of_nat v :: 8 word))"
      by (fact word_eq_iff_unsigned)
    then show ?thesis by (simp only: v)
  qed
  finally show ?thesis by (simp only: hi_nibble)
qed

lemma hi_nibble_2_6:
  "((x :: 8 word) AND 0xf0 = 0x20) = (drop_bit 4 x = 2)"
  "((x :: 8 word) AND 0xf0 = 0x60) = (drop_bit 4 x = 6)"
  "((x :: 8 word) AND 0xf0 = 0x40) = (drop_bit 4 x = 4)"
  "((x :: 8 word) AND 0xf0 = 0x80) = (drop_bit 4 x = 8)"
  using hi_nibble_eq [of 2 x] hi_nibble_eq [of 6 x] hi_nibble_eq [of 4 x] hi_nibble_eq [of 8 x]
  by (simp_all add: push_bit_eq_mult)


lemma sdo_timeout_ok: "CO_TIMEOUT_SDO < 0x7FFFFFFF"
  by (simp add: CO_TIMEOUT_SDO_def)

lemma sdo_write_step:
  assumes "fst (rx co (rx_calls s)) \<noteq> -1"
    and "\<not> isSDOResponse nodeId index subIndex (msg_after co (rx_calls s) msg 1)"
    and "ms co (ms_calls s) - start < CO_TIMEOUT_SDO"
  shows "coSDOWrite_loop (Suc n) co nodeId index subIndex start msg s =
         coSDOWrite_loop n co nodeId index subIndex start (msg_after co (rx_calls s) msg 1)
           (s\<lparr>rx_calls := Suc (rx_calls s), ms_calls := Suc (ms_calls s)\<rparr>)"
proof -
  have "haveTimeout co (s\<lparr>rx_calls := Suc (rx_calls s)\<rparr>) start CO_TIMEOUT_SDO =
        Inr (0, s\<lparr>rx_calls := Suc (rx_calls s), ms_calls := Suc (ms_calls s)\<rparr>)"
    using assms(3) by (subst haveTimeout_not_yet) (simp_all add: sdo_timeout_ok)
  then show ?thesis
    using assms(1,2) by (simp add: call_rx_eq del: msg_after.simps)
qed

lemma sdo_write_match:
  assumes "fst (rx co (rx_calls s)) \<noteq> -1"
    and "isSDOResponse nodeId index subIndex (msg_after co (rx_calls s) msg 1)"
  shows "coSDOWrite_loop (Suc n) co nodeId index subIndex start msg s =
         Inr (if drop_bit 4 (data (msg_after co (rx_calls s) msg 1) ! 0) = 2 \<or>
                 drop_bit 4 (data (msg_after co (rx_calls s) msg 1) ! 0) = 6 then 0 else -1,
              s\<lparr>rx_calls := Suc (rx_calls s)\<rparr>)"
  using assms by (simp add: call_rx_eq hi_nibble_2_6 del: msg_after.simps)

lemma sdo_write_skip:
  assumes "\<forall>i<k. fst (rx co (rx_calls s + i)) \<noteq> -1 \<and>
             \<not> isSDOResponse nodeId index subIndex (msg_after co (rx_calls s) msg (Suc i)) \<and>
             ms co (ms_calls s + i) - start < CO_TIMEOUT_SDO"
  shows "coSDOWrite_loop (k + n) co nodeId index subIndex start msg s =
         coSDOWrite_loop n co nodeId index subIndex start (msg_after co (rx_calls s) msg k)
           (s\<lparr>rx_calls := rx_calls s + k, ms_calls := ms_calls s + k\<rparr>)"
  using assms
proof (induction k arbitrary: msg s)
  case 0
  then show ?case by simp
next
  case (Suc k)
  let ?m = "msg_after co (rx_calls s) msg 1"
  let ?s = "s\<lparr>rx_calls := Suc (rx_calls s), ms_calls := Suc (ms_calls s)\<rparr>"
  have first: "fst (rx co (rx_calls s)) \<noteq> -1"
    "\<not> isSDOResponse nodeId index subIndex ?m" "ms co (ms_calls s) - start < CO_TIMEOUT_SDO"
    using Suc.prems by (auto dest: spec [where x = 0])
  have rest: "\<forall>i<k. fst (rx co (rx_calls ?s + i)) \<noteq> -1 \<and>
             \<not> isSDOResponse nodeId index subIndex (msg_after co (rx_calls ?s) ?m (Suc i)) \<and>
             ms co (ms_calls ?s + i) - start < CO_TIMEOUT_SDO"
  proof (intro allI impI)
    fix i assume "i < k"
    then have "Suc i < Suc k" by simp
    with Suc.prems show "fst (rx co (rx_calls ?s + i)) \<noteq> -1 \<and>
             \<not> isSDOResponse nodeId index subIndex (msg_after co (rx_calls ?s) ?m (Suc i)) \<and>
             ms co (ms_calls ?s + i) - start < CO_TIMEOUT_SDO"
      by (auto dest!: spec [where x = "Suc i"])
  qed
  have "coSDOWrite_loop (Suc k + n) co nodeId index subIndex start msg s =
        coSDOWrite_loop (k + n) co nodeId index subIndex start ?m ?s"
    using sdo_write_step [OF first] by simp
  also have "\<dots> = coSDOWrite_loop n co nodeId index subIndex start
           (msg_after co (rx_calls ?s) ?m k)
           (?s\<lparr>rx_calls := rx_calls ?s + k, ms_calls := ms_calls ?s + k\<rparr>)"
    by (rule Suc.IH [OF rest])
  finally show ?case by simp
qed

lemma sdo_write_loop_tx_log:
  "coSDOWrite_loop k co nodeId index subIndex start msg s = Inr (r, s') \<Longrightarrow>
   tx_log s' = tx_log s"
proof (induction k arbitrary: msg s)
  case 0
  then show ?case by simp
next
  case (Suc k)
  let ?m = "msg_after co (rx_calls s) msg 1"
  let ?s1 = "s\<lparr>rx_calls := Suc (rx_calls s)\<rparr>"
  let ?s2 = "?s1\<lparr>ms_calls := Suc (ms_calls ?s1)\<rparr>"
  have t: "haveTimeout co ?s1 start CO_TIMEOUT_SDO =
      Inr (if uint CO_TIMEOUT_SDO \<le> \<bar>sint (ms co (ms_calls ?s1) - start)\<bar> then -1 else 0, ?s2)"
    by (rule haveTimeout_eq [OF sdo_timeout_ok])
  show ?case
  proof (cases "fst (rx co (rx_calls s)) = -1 \<or> isSDOResponse nodeId index subIndex ?m \<or>
      uint CO_TIMEOUT_SDO \<le> \<bar>sint (ms co (ms_calls ?s1) - start)\<bar>")
    case True
    with Suc.prems show ?thesis
      by (auto simp add: call_rx_eq t simp del: msg_after.simps split: if_splits)
  next
    case False
    with Suc.prems have "coSDOWrite_loop k co nodeId index subIndex start ?m ?s2 = Inr (r, s')"
      by (simp add: call_rx_eq t del: msg_after.simps)
    from Suc.IH [OF this] show ?thesis by simp
  qed
qed


lemma ucast_and_ff:
  "(ucast ((x :: 16 word) AND 0xff) :: 8 word) = ucast x"
  "(ucast ((y :: 32 word) AND 0xff) :: 8 word) = ucast y"
proof -
  have m: "(0xff :: 16 word) = mask 8" "(0xff :: 32 word) = mask 8"
    by (simp_all add: mask_eq_exp_minus_1)
  show "(ucast (x AND 0xff) :: 8 word) = ucast x"
    unfolding m by (rule bit_eqI) (auto simp add: bit_simps)
  show "(ucast (y AND 0xff) :: 8 word) = ucast y"
    unfolding m by (rule bit_eqI) (auto simp add: bit_simps)
qed

lemma len_cases:
  assumes "0 < n" and "n \<le> 4"
  shows "n = 1 \<or> n = 2 \<or> n = 3 \<or> n = (4 :: size_t)"
proof -
  have "0 < unat n" "unat n \<le> 4"
    using assms by (simp_all add: word_less_nat_alt word_le_nat_alt)
  then have "unat n = 1 \<or> unat n = 2 \<or> unat n = 3 \<or> unat n = 4" by linarith
  then show ?thesis
    by (auto simp add: word_eq_iff_unsigned [where 'a = nat])
qed

lemma sdoWriteRequest_layout:
  assumes "0 < n" and "n \<le> 4"
  shows "sdoWriteRequest nodeId index subIndex dat n =
     \<lparr>cobId = 0x600 + ucast nodeId, len = 8,
      data = [0x23 OR push_bit 2 (4 - ucast n), ucast index, ucast (drop_bit 8 index), subIndex] @
             map (\<lambda>i. if of_nat i < n then ucast (drop_bit (8 * i) dat) else 0) [0, 1, 2, 3]\<rparr>"
  using len_cases [OF assms]
  by (auto simp add: sdoWriteRequest_def COB_ID_RSDO_def ucast_and_ff)

lemma coSDOWrite_sends:
  assumes "coSDOWrite fuel co s nodeId index subIndex dat n = Inr (r, s')"
  shows "tx_log s' = tx_log s @ [sdoWriteRequest nodeId index subIndex dat n]"
  using assms
  by (auto simp add: coSDOWrite_def call_tx_def call_ms_def Let_def
      split: if_splits dest!: sdo_write_loop_tx_log)

text \<open>
  Claim C4. For a node 1 to 127 and a length \<open>n\<close> from 1 to 4, the request frame of
  \<^verbatim>\<open>coSDOWrite\<close> has the identifier \<open>0x600 + node\<close> and 8 bytes of payload: the command
  specifier \<open>0x23 | ((4 - n) << 2)\<close>, the low and the high byte of the index, the
  subindex, and the four bytes of the value, least significant first, where byte \<open>i\<close>
  is zero unless \<open>i < n\<close>. This is the frame a call that returns has handed to the send
  callback, and the only one.
\<close>

theorem coSDOWrite_request_frame:
  assumes "0 < nodeId" and "nodeId \<le> 127" and "0 < n" and "n \<le> 4"
  shows "sdoWriteRequest nodeId index subIndex dat n =
     \<lparr>cobId = 0x600 + ucast nodeId, len = 8,
      data = [0x23 OR push_bit 2 (4 - ucast n), ucast index, ucast (drop_bit 8 index), subIndex] @
             map (\<lambda>i. if of_nat i < n then ucast (drop_bit (8 * i) dat) else 0) [0, 1, 2, 3]\<rparr> \<and>
    (coSDOWrite fuel co s nodeId index subIndex dat n = Inr (r, s') \<longrightarrow>
       tx_log s' = tx_log s @ [sdoWriteRequest nodeId index subIndex dat n])"
  using sdoWriteRequest_layout [OF assms(3,4)] coSDOWrite_sends by blast

text \<open>A write of the three bytes \<open>0x112233\<close> to \<open>0x1A00.2\<close> of node 5: command specifier
  \<open>0x27\<close>, the fourth value byte zero. The receive callback fails at once, so the call
  returns.\<close>

theorem coSDOWrite_request_frame_witness:
  "sdoWriteRequest 5 0x1A00 2 0x00112233 3 =
     \<lparr>cobId = 0x605, len = 8, data = [0x27, 0x00, 0x1A, 0x02, 0x33, 0x22, 0x11, 0x00]\<rparr> \<and>
   coSDOWrite 1 (bus [(-1, None)] [0]) fresh 5 0x1A00 2 0x00112233 3 =
     Inr (-1, fresh\<lparr>rx_calls := 1, ms_calls := 1,
        tx_log := [\<lparr>cobId = 0x605, len = 8, data = [0x27, 0x00, 0x1A, 0x02, 0x33, 0x22, 0x11, 0x00]\<rparr>]\<rparr>)"
proof -
  let ?F = "\<lparr>cobId = 0x600 + ucast (5 :: u8), len = 8,
      data = [0x23 OR push_bit 2 (4 - ucast (3 :: size_t)), ucast (0x1A00 :: u16),
              ucast (drop_bit 8 (0x1A00 :: u16)), 2] @
             map (\<lambda>i. if of_nat i < (3 :: size_t) then ucast (drop_bit (8 * i) (0x00112233 :: u32)) else 0)
               [0, 1, 2, 3]\<rparr>"
  let ?C = "\<lparr>cobId = 0x605, len = 8, data = [0x27, 0x00, 0x1A, 0x02, 0x33, 0x22, 0x11, 0x00]\<rparr>"
  have a: "(0::u8) < 5" "(5::u8) \<le> 127" "(0::size_t) < 3" "(3::size_t) \<le> 4" by simp_all
  have "sdoWriteRequest 5 0x1A00 2 0x00112233 3 = ?F"
    using coSDOWrite_request_frame [OF a] by blast
  also have "?F = ?C" by code_simp
  finally have frame: "sdoWriteRequest 5 0x1A00 2 0x00112233 3 = ?C" .
  have run: "coSDOWrite 1 (bus [(-1, None)] [0]) fresh 5 0x1A00 2 0x00112233 3 =
     Inr (-1, fresh\<lparr>rx_calls := 1, ms_calls := 1, tx_log := [?C]\<rparr>)"
    by code_simp
  from frame run show ?thesis by (rule conjI)
qed


text \<open>
  Claim C5. Let \<^verbatim>\<open>coSDOWrite\<close> have sent its request, let the first \<open>k\<close> polls return
  without error, each leaving a frame in \<^verbatim>\<open>msg\<close> that is not a response to this request
  (class \<^verbatim>\<open>COB_ID_TSDO\<close>, the node, length 8, index and subindex), each within the bound
  \<^verbatim>\<open>CO_TIMEOUT_SDO\<close>, and let the next poll leave a frame that is such a response, with
  command specifier \<open>cs\<close>. Then the call returns there: 0 when the high nibble of \<open>cs\<close>
  is 2 or 6, and \<open>-1\<close> (\<open>0xFFFFFFFF\<close>) for every other high nibble, 8 among them.
\<close>

theorem coSDOWrite_verdict:
  assumes "0 < nodeId" and "nodeId \<le> 127" and "0 < n" and "n \<le> 4"
    and "req = sdoWriteRequest nodeId index subIndex dat n"
    and "tx co (length (tx_log s)) req = 0"
    and "\<forall>i<k. fst (rx co (rx_calls s + i)) \<noteq> -1 \<and>
           \<not> isSDOResponse nodeId index subIndex (msg_after co (rx_calls s) req (Suc i)) \<and>
           ms co (Suc (ms_calls s) + i) - ms co (ms_calls s) < CO_TIMEOUT_SDO"
    and "fst (rx co (rx_calls s + k)) \<noteq> -1"
    and "isSDOResponse nodeId index subIndex (msg_after co (rx_calls s) req (Suc k))"
    and "cs = data (msg_after co (rx_calls s) req (Suc k)) ! 0"
  shows "coSDOWrite (Suc (k + fuel)) co s nodeId index subIndex dat n =
           Inr (if drop_bit 4 cs = 2 \<or> drop_bit 4 cs = 6 then 0 else -1,
                s\<lparr>tx_log := tx_log s @ [req],
                  ms_calls := ms_calls s + Suc k, rx_calls := rx_calls s + Suc k\<rparr>)"
proof -
  let ?start = "ms co (ms_calls s)"
  let ?s1 = "s\<lparr>tx_log := tx_log s @ [req], ms_calls := Suc (ms_calls s)\<rparr>"
  let ?sk = "?s1\<lparr>rx_calls := rx_calls ?s1 + k, ms_calls := ms_calls ?s1 + k\<rparr>"
  let ?mk = "msg_after co (rx_calls s) req k"
  have entry: "coSDOWrite f co s nodeId index subIndex dat n =
        coSDOWrite_loop f co nodeId index subIndex ?start req ?s1" for f
    using assms(1-4,6) by (simp add: coSDOWrite_def call_tx_def call_ms_def assms(5) [symmetric])
  have "\<forall>i<k. fst (rx co (rx_calls ?s1 + i)) \<noteq> -1 \<and>
           \<not> isSDOResponse nodeId index subIndex (msg_after co (rx_calls ?s1) req (Suc i)) \<and>
           ms co (ms_calls ?s1 + i) - ?start < CO_TIMEOUT_SDO"
    using assms(7) by simp
  then have "coSDOWrite_loop (k + Suc fuel) co nodeId index subIndex ?start req ?s1 =
        coSDOWrite_loop (Suc fuel) co nodeId index subIndex ?start
          (msg_after co (rx_calls ?s1) req k) ?sk"
    by (rule sdo_write_skip)
  then have run: "coSDOWrite (Suc (k + fuel)) co s nodeId index subIndex dat n =
        coSDOWrite_loop (Suc fuel) co nodeId index subIndex ?start ?mk ?sk"
    by (simp add: entry)
  have last: "msg_after co (rx_calls ?sk) ?mk 1 = msg_after co (rx_calls s) req (Suc k)"
    using msg_after_add [of co "rx_calls s" req k 1] by simp
  have rxk: "fst (rx co (rx_calls ?sk)) \<noteq> -1"
    using assms(8) by simp
  have "isSDOResponse nodeId index subIndex (msg_after co (rx_calls ?sk) ?mk 1)"
    unfolding last by (rule assms(9))
  from sdo_write_match [OF rxk this, of fuel ?start] show ?thesis
    unfolding last by (simp add: run assms(10) del: coSDOWrite_loop.simps)
qed

text \<open>A write to \<open>0x1A00.2\<close> of node 5, answered after one empty poll with command
  specifier \<open>0x60\<close> (success), and answered at once with \<open>0x80\<close> (abort).\<close>

theorem coSDOWrite_verdict_witness:
  "coSDOWrite 2
     (bus [(1, None), (0, Some (frame 0x585 [0x60, 0x00, 0x1A, 0x02, 0, 0, 0, 0]))] [0, 1, 2])
     fresh 5 0x1A00 2 0x00112233 3 =
     Inr (0, fresh\<lparr>tx_log := [sdoWriteRequest 5 0x1A00 2 0x00112233 3],
                  ms_calls := 2, rx_calls := 2\<rparr>) \<and>
   coSDOWrite 1
     (bus [(0, Some (frame 0x585 [0x80, 0x00, 0x1A, 0x02, 0x00, 0x00, 0x02, 0x06]))] [0, 1])
     fresh 5 0x1A00 2 0x00112233 3 =
     Inr (-1, fresh\<lparr>tx_log := [sdoWriteRequest 5 0x1A00 2 0x00112233 3],
                  ms_calls := 1, rx_calls := 1\<rparr>)"
proof -
  let ?A = "bus [(1, None), (0, Some (frame 0x585 [0x60, 0x00, 0x1A, 0x02, 0, 0, 0, 0]))] [0, 1, 2]"
  let ?B = "bus [(0, Some (frame 0x585 [0x80, 0x00, 0x1A, 0x02, 0x00, 0x00, 0x02, 0x06]))] [0, 1]"
  let ?req = "sdoWriteRequest 5 0x1A00 2 0x00112233 3"
  have a: "(0::u8) < 5" "(5::u8) \<le> 127" "(0::size_t) < 3" "(3::size_t) \<le> 4" by simp_all
  have txA: "tx ?A (length (tx_log fresh)) ?req = 0" and txB: "tx ?B (length (tx_log fresh)) ?req = 0"
    by (simp_all add: bus_def)
  have skipA: "\<forall>i<1. fst (rx ?A (rx_calls fresh + i)) \<noteq> -1 \<and>
           \<not> isSDOResponse 5 0x1A00 2 (msg_after ?A (rx_calls fresh) ?req (Suc i)) \<and>
           ms ?A (Suc (ms_calls fresh) + i) - ms ?A (ms_calls fresh) < CO_TIMEOUT_SDO"
  proof -
    have "fst (rx ?A (rx_calls fresh + 0)) \<noteq> -1 \<and>
           \<not> isSDOResponse 5 0x1A00 2 (msg_after ?A (rx_calls fresh) ?req (Suc 0)) \<and>
           ms ?A (Suc (ms_calls fresh) + 0) - ms ?A (ms_calls fresh) < CO_TIMEOUT_SDO"
      by code_simp
    then show ?thesis by simp
  qed
  have lastA: "fst (rx ?A (rx_calls fresh + 1)) \<noteq> -1"
    "isSDOResponse 5 0x1A00 2 (msg_after ?A (rx_calls fresh) ?req (Suc 1))"
    by code_simp+
  have csA: "data (msg_after ?A (rx_calls fresh) ?req (Suc 1)) ! 0 = 0x60" by code_simp
  have skipB: "\<forall>i<0. fst (rx ?B (rx_calls fresh + i)) \<noteq> -1 \<and>
           \<not> isSDOResponse 5 0x1A00 2 (msg_after ?B (rx_calls fresh) ?req (Suc i)) \<and>
           ms ?B (Suc (ms_calls fresh) + i) - ms ?B (ms_calls fresh) < CO_TIMEOUT_SDO"
    by simp
  have lastB: "fst (rx ?B (rx_calls fresh + 0)) \<noteq> -1"
    "isSDOResponse 5 0x1A00 2 (msg_after ?B (rx_calls fresh) ?req (Suc 0))"
    by code_simp+
  have csB: "data (msg_after ?B (rx_calls fresh) ?req (Suc 0)) ! 0 = 0x80" by code_simp
  have nib: "drop_bit 4 (0x60 :: u8) = 6" "drop_bit 4 (0x80 :: u8) \<noteq> 2" "drop_bit 4 (0x80 :: u8) \<noteq> 6"
    by code_simp+
  from coSDOWrite_verdict [OF a refl txA skipA lastA csA [symmetric], of 0] nib
  have A: "coSDOWrite 2 ?A fresh 5 0x1A00 2 0x00112233 3 =
     Inr (0, fresh\<lparr>tx_log := [?req], ms_calls := 2, rx_calls := 2\<rparr>)"
    by (simp add: fresh_def numeral_2_eq_2)
  from coSDOWrite_verdict [OF a refl txB skipB lastB csB [symmetric], of 0] nib
  have B: "coSDOWrite 1 ?B fresh 5 0x1A00 2 0x00112233 3 =
     Inr (-1, fresh\<lparr>tx_log := [?req], ms_calls := 1, rx_calls := 1\<rparr>)"
    by (simp add: fresh_def)
  from A B show ?thesis by (rule conjI)
qed


subsection \<open>SDO upload (\<^verbatim>\<open>coSDORead\<close>)\<close>

lemma sdo_read_loop_inv:
  "coSDORead_loop k co nodeId index subIndex n nField start msg out s = Inr (r, out', s') \<Longrightarrow>
   tx_log s' = tx_log s \<and> (r \<noteq> 0 \<longrightarrow> out' = out)"
proof (induction k arbitrary: msg s)
  case 0
  then show ?case by simp
next
  case (Suc k)
  let ?m = "msg_after co (rx_calls s) msg 1"
  let ?s1 = "s\<lparr>rx_calls := Suc (rx_calls s)\<rparr>"
  let ?s2 = "?s1\<lparr>ms_calls := Suc (ms_calls ?s1)\<rparr>"
  let ?accept = "isSDOResponse nodeId index subIndex ?m \<and>
      0x03 = data ?m ! 0 AND 0x03 \<and> nField = data ?m ! 0 AND 0x0c"
  have t: "haveTimeout co ?s1 start CO_TIMEOUT_SDO =
      Inr (if uint CO_TIMEOUT_SDO \<le> \<bar>sint (ms co (ms_calls ?s1) - start)\<bar> then -1 else 0, ?s2)"
    by (rule haveTimeout_eq [OF sdo_timeout_ok])
  from Suc.prems show ?case
    by (auto simp add: call_rx_eq t simp del: msg_after.simps split: if_splits dest: Suc.IH)
qed

lemma coSDORead_sends:
  assumes "coSDORead fuel co s nodeId index subIndex out n = Inr (r, out', s')"
  shows "tx_log s' = tx_log s @ [sdoReadRequest nodeId index subIndex]"
  using assms
  by (auto simp add: coSDORead_def call_tx_def call_ms_def Let_def
      split: if_splits dest!: sdo_read_loop_inv)

lemma coSDORead_keeps_out:
  assumes "coSDORead fuel co s nodeId index subIndex out n = Inr (r, out', s')" and "r \<noteq> 0"
  shows "out' = out"
  using assms
  by (auto simp add: coSDORead_def call_tx_def call_ms_def Let_def
      split: if_splits dest!: sdo_read_loop_inv)

lemma coRPDO_keeps_buffer:
  assumes "coRPDO co s msg0 nodeId dat n = Inr (r, dat', n', s')" and "r \<noteq> 0"
  shows "dat' = dat \<and> n' = n"
  using assms
  by (auto simp add: coRPDO_def call_rx_eq Let_def simp del: msg_after.simps split: if_splits)

lemma sdo_read_step:
  assumes "fst (rx co (rx_calls s)) \<noteq> -1"
    and "\<not> (isSDOResponse nodeId index subIndex (msg_after co (rx_calls s) msg 1) \<and>
            0x03 = data (msg_after co (rx_calls s) msg 1) ! 0 AND 0x03 \<and>
            nField = data (msg_after co (rx_calls s) msg 1) ! 0 AND 0x0c)"
    and "ms co (ms_calls s) - start < CO_TIMEOUT_SDO"
  shows "coSDORead_loop (Suc k) co nodeId index subIndex n nField start msg out s =
         coSDORead_loop k co nodeId index subIndex n nField start (msg_after co (rx_calls s) msg 1)
           out (s\<lparr>rx_calls := Suc (rx_calls s), ms_calls := Suc (ms_calls s)\<rparr>)"
proof -
  have "haveTimeout co (s\<lparr>rx_calls := Suc (rx_calls s)\<rparr>) start CO_TIMEOUT_SDO =
        Inr (0, s\<lparr>rx_calls := Suc (rx_calls s), ms_calls := Suc (ms_calls s)\<rparr>)"
    using assms(3) by (subst haveTimeout_not_yet) (simp_all add: sdo_timeout_ok)
  then show ?thesis
    using assms(1,2) by (auto simp add: call_rx_eq simp del: msg_after.simps)
qed

lemma le_value:
  fixes d4 d5 d6 d7 :: u8 and n :: size_t
  assumes "0 < n" and "n \<le> 4"
  shows "ucast d4 OR
         (if 1 < n then push_bit 8 (ucast d5) else 0x00) OR
         (if 2 < n then push_bit 16 (ucast d6) else 0x00) OR
         (if 3 < n then push_bit 24 (ucast d7) else 0x00) =
         (take_bit (8 * unat n)
            (ucast d4 + 2^8 * ucast d5 + 2^16 * ucast d6 + 2^24 * ucast d7) :: u32)"
proof -
  let ?w = "ucast d4 OR push_bit 8 (ucast d5) OR push_bit 16 (ucast d6) OR push_bit 24 (ucast d7) :: u32"
  let ?p5 = "push_bit 8 (ucast d5) :: u32"
  let ?p6 = "push_bit 16 (ucast d6) :: u32"
  let ?p7 = "push_bit 24 (ucast d7) :: u32"
  have a1: "?p6 + ?p7 = ?p6 OR ?p7"
    by (rule disjunctive_add) (auto simp add: bit_simps dest: bit_imp_le_length)
  have a2: "?p5 + (?p6 OR ?p7) = ?p5 OR ?p6 OR ?p7"
    by (rule disjunctive_add) (auto simp add: bit_simps dest: bit_imp_le_length)
  have a3: "ucast d4 + (?p5 OR ?p6 OR ?p7) = ?w"
    by (rule disjunctive_add) (auto simp add: bit_simps dest: bit_imp_le_length)
  have "ucast d4 + (?p5 + (?p6 + ?p7)) = ucast d4 + (?p5 + (?p6 OR ?p7))"
    by (simp only: a1)
  also have "\<dots> = ucast d4 + (?p5 OR ?p6 OR ?p7)"
    by (simp only: a2)
  also have "\<dots> = ?w"
    by (rule a3)
  finally have "ucast d4 + (?p5 + (?p6 + ?p7)) = ?w" .
  then have sum: "(ucast d4 + 2^8 * ucast d5 + 2^16 * ucast d6 + 2^24 * ucast d7 :: u32) = ?w"
    by (simp add: push_bit_eq_mult algebra_simps)
  have t: "take_bit 8 ?w = ucast d4"
    "take_bit 16 ?w = ucast d4 OR push_bit 8 (ucast d5)"
    "take_bit 24 ?w = ucast d4 OR push_bit 8 (ucast d5) OR push_bit 16 (ucast d6)"
    "take_bit 32 ?w = ?w"
    by (rule bit_eqI; auto simp add: bit_simps dest: bit_imp_le_length)+
  consider "n = 1" | "n = 2" | "n = 3" | "n = 4"
    using len_cases [OF assms] by blast
  then show ?thesis
  proof cases
    case 1
    then have "8 * unat n = 8" by simp
    then have "take_bit (8 * unat n) ?w = ucast d4" by (simp only: t)
    with 1 show ?thesis unfolding sum by simp
  next
    case 2
    then have "8 * unat n = 16" by simp
    then have "take_bit (8 * unat n) ?w = ucast d4 OR ?p5" by (simp only: t)
    with 2 show ?thesis unfolding sum by simp
  next
    case 3
    then have "8 * unat n = 24" by simp
    then have "take_bit (8 * unat n) ?w = ucast d4 OR ?p5 OR ?p6" by (simp only: t)
    with 3 show ?thesis unfolding sum by simp
  next
    case 4
    then have "8 * unat n = 32" by simp
    then have "take_bit (8 * unat n) ?w = ?w" by (simp only: t)
    with 4 show ?thesis unfolding sum by simp
  qed
qed


lemma nField_eq:
  fixes n :: size_t
  assumes "0 < n" and "n \<le> 4"
  shows "(ucast (push_bit 2 (4 - n)) :: u8) = push_bit 2 (4 - ucast n)"
  using len_cases [OF assms] by (elim disjE) simp_all

lemma sdo_read_match:
  assumes "fst (rx co (rx_calls s)) \<noteq> -1"
    and "m = msg_after co (rx_calls s) msg 1"
    and "isSDOResponse nodeId index subIndex m"
    and "data m ! 0 AND 0x03 = 0x03" and "data m ! 0 AND 0x0c = nField"
  shows "coSDORead_loop (Suc k) co nodeId index subIndex n nField start msg out s =
         Inr (if drop_bit 4 (data m ! 0) = 4 \<or> drop_bit 4 (data m ! 0) = 6 then 0 else -1,
              if drop_bit 4 (data m ! 0) = 4 \<or> drop_bit 4 (data m ! 0) = 6
              then ucast (data m ! 4) OR
                (if 1 < n then push_bit 8 (ucast (data m ! 5)) else 0x00) OR
                (if 2 < n then push_bit 16 (ucast (data m ! 6)) else 0x00) OR
                (if 3 < n then push_bit 24 (ucast (data m ! 7)) else 0x00)
              else out,
              s\<lparr>rx_calls := Suc (rx_calls s)\<rparr>)"
  using assms(1,3,4,5) unfolding assms(2)
  by (simp add: call_rx_eq hi_nibble_2_6 del: msg_after.simps)

lemma sdo_read_skip:
  assumes "\<forall>i<k. fst (rx co (rx_calls s + i)) \<noteq> -1 \<and>
             \<not> (isSDOResponse nodeId index subIndex (msg_after co (rx_calls s) msg (Suc i)) \<and>
                0x03 = data (msg_after co (rx_calls s) msg (Suc i)) ! 0 AND 0x03 \<and>
                nField = data (msg_after co (rx_calls s) msg (Suc i)) ! 0 AND 0x0c) \<and>
             ms co (ms_calls s + i) - start < CO_TIMEOUT_SDO"
  shows "coSDORead_loop (k + j) co nodeId index subIndex n nField start msg out s =
         coSDORead_loop j co nodeId index subIndex n nField start (msg_after co (rx_calls s) msg k)
           out (s\<lparr>rx_calls := rx_calls s + k, ms_calls := ms_calls s + k\<rparr>)"
  using assms
proof (induction k arbitrary: msg s)
  case 0
  then show ?case by simp
next
  case (Suc k)
  let ?m = "msg_after co (rx_calls s) msg 1"
  let ?s = "s\<lparr>rx_calls := Suc (rx_calls s), ms_calls := Suc (ms_calls s)\<rparr>"
  have first: "fst (rx co (rx_calls s)) \<noteq> -1"
    "\<not> (isSDOResponse nodeId index subIndex ?m \<and> 0x03 = data ?m ! 0 AND 0x03 \<and>
        nField = data ?m ! 0 AND 0x0c)"
    "ms co (ms_calls s) - start < CO_TIMEOUT_SDO"
    using Suc.prems [rule_format, of 0] by simp_all
  have rest: "\<forall>i<k. fst (rx co (rx_calls ?s + i)) \<noteq> -1 \<and>
             \<not> (isSDOResponse nodeId index subIndex (msg_after co (rx_calls ?s) ?m (Suc i)) \<and>
                0x03 = data (msg_after co (rx_calls ?s) ?m (Suc i)) ! 0 AND 0x03 \<and>
                nField = data (msg_after co (rx_calls ?s) ?m (Suc i)) ! 0 AND 0x0c) \<and>
             ms co (ms_calls ?s + i) - start < CO_TIMEOUT_SDO"
  proof (intro allI impI)
    fix i assume "i < k"
    then have "Suc i < Suc k" by simp
    from Suc.prems [rule_format, OF this]
    show "fst (rx co (rx_calls ?s + i)) \<noteq> -1 \<and>
             \<not> (isSDOResponse nodeId index subIndex (msg_after co (rx_calls ?s) ?m (Suc i)) \<and>
                0x03 = data (msg_after co (rx_calls ?s) ?m (Suc i)) ! 0 AND 0x03 \<and>
                nField = data (msg_after co (rx_calls ?s) ?m (Suc i)) ! 0 AND 0x0c) \<and>
             ms co (ms_calls ?s + i) - start < CO_TIMEOUT_SDO"
      by simp
  qed
  have "coSDORead_loop (Suc k + j) co nodeId index subIndex n nField start msg out s =
        coSDORead_loop (k + j) co nodeId index subIndex n nField start ?m out ?s"
    using sdo_read_step [OF first] by simp
  also have "\<dots> = coSDORead_loop j co nodeId index subIndex n nField start
           (msg_after co (rx_calls ?s) ?m k) out
           (?s\<lparr>rx_calls := rx_calls ?s + k, ms_calls := ms_calls ?s + k\<rparr>)"
    by (rule Suc.IH [OF rest])
  finally show ?case by simp
qed

text \<open>
  The accepting path of \<^verbatim>\<open>coSDORead\<close>. Let \<^verbatim>\<open>coSDORead\<close> have sent its request for \<open>n\<close> bytes (1 to 4) of a node 1 to 127. It
  accepts a frame exactly when the frame is a response to this request (class
  \<^verbatim>\<open>COB_ID_TSDO\<close>, the node, length 8, index and subindex), the low two bits of its
  command specifier are \<open>0b11\<close> and bits 2 and 3 are \<open>(4 - n) << 2\<close>. Let the first \<open>k\<close>
  polls return without error, each leaving a frame that is not accepted, within the
  bound \<^verbatim>\<open>CO_TIMEOUT_SDO\<close>, and let the next poll leave an accepted frame \<open>m\<close>. Then the
  call returns there: with 0 and the value of the data bytes 4 to 7, least significant
  first, cut to \<open>n\<close> bytes, when the high nibble of the command specifier is 4 or 6; with
  \<open>-1\<close> and the caller's value untouched for every other high nibble.
\<close>

theorem coSDORead_verdict:
  assumes "0 < nodeId" and "nodeId \<le> 127" and "0 < n" and "n \<le> 4"
    and "req = sdoReadRequest nodeId index subIndex"
    and "tx co (length (tx_log s)) req = 0"
    and "acc = (\<lambda>m. isSDOResponse nodeId index subIndex m \<and> data m ! 0 AND 0x03 = 0x03 \<and>
                   data m ! 0 AND 0x0c = push_bit 2 (4 - ucast n))"
    and "\<forall>i<k. fst (rx co (rx_calls s + i)) \<noteq> -1 \<and>
           \<not> acc (msg_after co (rx_calls s) req (Suc i)) \<and>
           ms co (Suc (ms_calls s) + i) - ms co (ms_calls s) < CO_TIMEOUT_SDO"
    and "fst (rx co (rx_calls s + k)) \<noteq> -1"
    and "m = msg_after co (rx_calls s) req (Suc k)" and "acc m"
  shows "coSDORead (Suc (k + fuel)) co s nodeId index subIndex out n =
     Inr (if drop_bit 4 (data m ! 0) = 4 \<or> drop_bit 4 (data m ! 0) = 6 then 0 else -1,
          if drop_bit 4 (data m ! 0) = 4 \<or> drop_bit 4 (data m ! 0) = 6
          then take_bit (8 * unat n)
                 (ucast (data m ! 4) + 2^8 * ucast (data m ! 5) + 2^16 * ucast (data m ! 6) +
                  2^24 * ucast (data m ! 7))
          else out,
          s\<lparr>tx_log := tx_log s @ [req],
            ms_calls := ms_calls s + Suc k, rx_calls := rx_calls s + Suc k\<rparr>)"
proof -
  let ?start = "ms co (ms_calls s)"
  let ?nField = "ucast (push_bit 2 (4 - n)) :: u8"
  let ?s1 = "s\<lparr>tx_log := tx_log s @ [req], ms_calls := Suc (ms_calls s)\<rparr>"
  let ?sk = "?s1\<lparr>rx_calls := rx_calls ?s1 + k, ms_calls := ms_calls ?s1 + k\<rparr>"
  let ?mk = "msg_after co (rx_calls s) req k"
  note nf = nField_eq [OF assms(3,4)]
  have entry: "coSDORead f co s nodeId index subIndex out n =
        coSDORead_loop f co nodeId index subIndex n ?nField ?start req out ?s1" for f
    using assms(1-4,6) by (simp add: coSDORead_def call_tx_def call_ms_def assms(5) [symmetric])
  have "\<forall>i<k. fst (rx co (rx_calls ?s1 + i)) \<noteq> -1 \<and>
           \<not> (isSDOResponse nodeId index subIndex (msg_after co (rx_calls ?s1) req (Suc i)) \<and>
              0x03 = data (msg_after co (rx_calls ?s1) req (Suc i)) ! 0 AND 0x03 \<and>
              ?nField = data (msg_after co (rx_calls ?s1) req (Suc i)) ! 0 AND 0x0c) \<and>
           ms co (ms_calls ?s1 + i) - ?start < CO_TIMEOUT_SDO"
    using assms(8) unfolding assms(7) nf by (auto simp del: msg_after.simps)
  then have "coSDORead_loop (k + Suc fuel) co nodeId index subIndex n ?nField ?start req out ?s1 =
        coSDORead_loop (Suc fuel) co nodeId index subIndex n ?nField ?start
          (msg_after co (rx_calls ?s1) req k) out ?sk"
    by (rule sdo_read_skip)
  then have run: "coSDORead (Suc (k + fuel)) co s nodeId index subIndex out n =
        coSDORead_loop (Suc fuel) co nodeId index subIndex n ?nField ?start ?mk out ?sk"
    by (simp add: entry)
  have last: "m = msg_after co (rx_calls ?sk) ?mk 1"
    using msg_after_add [of co "rx_calls s" req k 1] by (simp add: assms(10))
  have rxk: "fst (rx co (rx_calls ?sk)) \<noteq> -1"
    using assms(9) by simp
  have acc: "isSDOResponse nodeId index subIndex m" "data m ! 0 AND 0x03 = 0x03"
    "data m ! 0 AND 0x0c = ?nField"
    using assms(11) unfolding assms(7) nf by simp_all
  have val: "ucast (data m ! 4) OR
                (if 1 < n then push_bit 8 (ucast (data m ! 5)) else 0x00) OR
                (if 2 < n then push_bit 16 (ucast (data m ! 6)) else 0x00) OR
                (if 3 < n then push_bit 24 (ucast (data m ! 7)) else 0x00) =
        (take_bit (8 * unat n)
                 (ucast (data m ! 4) + 2^8 * ucast (data m ! 5) + 2^16 * ucast (data m ! 6) +
                  2^24 * ucast (data m ! 7)) :: u32)"
    by (rule le_value [OF assms(3,4)])
  from sdo_read_match [OF rxk last acc, of fuel n ?start out] show ?thesis
    unfolding val run by simp
qed


text \<open>
  The read of \<open>0x1018.1\<close> (4 bytes) of node 5, answered after one empty poll by
  \<open>[0x43, 0x18, 0x10, 0x01, 0xAA, 0xBB, 0xCC, 0xDD]\<close>: success, value \<open>0xDDCCBBAA\<close>. A
  read of 2 bytes answered with command specifier \<open>0x8B\<close> (high nibble 8, accepted):
  \<open>-1\<close>.
\<close>

theorem coSDORead_verdict_witness:
  "coSDORead 2
     (bus [(1, None), (0, Some (frame 0x585 [0x43, 0x18, 0x10, 0x01, 0xAA, 0xBB, 0xCC, 0xDD]))]
        [0, 1, 2])
     fresh 5 0x1018 1 0 4 =
     Inr (0, 0xDDCCBBAA,
          fresh\<lparr>tx_log := [sdoReadRequest 5 0x1018 1], ms_calls := 2, rx_calls := 2\<rparr>) \<and>
   coSDORead 1
     (bus [(0, Some (frame 0x585 [0x8B, 0x18, 0x10, 0x01, 0x00, 0x00, 0x02, 0x06]))] [0, 1])
     fresh 5 0x1018 1 0x12345678 2 =
     Inr (-1, 0x12345678,
          fresh\<lparr>tx_log := [sdoReadRequest 5 0x1018 1], ms_calls := 1, rx_calls := 1\<rparr>)"
proof -
  let ?mA = "frame 0x585 [0x43, 0x18, 0x10, 0x01, 0xAA, 0xBB, 0xCC, 0xDD]"
  let ?mB = "frame 0x585 [0x8B, 0x18, 0x10, 0x01, 0x00, 0x00, 0x02, 0x06]"
  let ?A = "bus [(1, None), (0, Some ?mA)] [0, 1, 2]"
  let ?B = "bus [(0, Some ?mB)] [0, 1]"
  let ?req = "sdoReadRequest 5 0x1018 1"
  let ?accA = "\<lambda>m. isSDOResponse 5 0x1018 1 m \<and> data m ! 0 AND 0x03 = 0x03 \<and>
                   data m ! 0 AND 0x0c = push_bit 2 (4 - ucast (4 :: size_t))"
  let ?accB = "\<lambda>m. isSDOResponse 5 0x1018 1 m \<and> data m ! 0 AND 0x03 = 0x03 \<and>
                   data m ! 0 AND 0x0c = push_bit 2 (4 - ucast (2 :: size_t))"
  have a: "(0::u8) < 5" "(5::u8) \<le> 127" by simp_all
  have lA: "(0::size_t) < 4" "(4::size_t) \<le> 4" and lB: "(0::size_t) < 2" "(2::size_t) \<le> 4"
    by simp_all
  have txA: "tx ?A (length (tx_log fresh)) ?req = 0" and txB: "tx ?B (length (tx_log fresh)) ?req = 0"
    by (simp_all add: bus_def)
  have skipA: "\<forall>i<1. fst (rx ?A (rx_calls fresh + i)) \<noteq> -1 \<and>
           \<not> ?accA (msg_after ?A (rx_calls fresh) ?req (Suc i)) \<and>
           ms ?A (Suc (ms_calls fresh) + i) - ms ?A (ms_calls fresh) < CO_TIMEOUT_SDO"
  proof -
    have "fst (rx ?A (rx_calls fresh + 0)) \<noteq> -1 \<and>
           \<not> ?accA (msg_after ?A (rx_calls fresh) ?req (Suc 0)) \<and>
           ms ?A (Suc (ms_calls fresh) + 0) - ms ?A (ms_calls fresh) < CO_TIMEOUT_SDO"
      by code_simp
    then show ?thesis by simp
  qed
  have lastA: "fst (rx ?A (rx_calls fresh + 1)) \<noteq> -1"
    "?mA = msg_after ?A (rx_calls fresh) ?req (Suc 1)" "?accA ?mA"
    by code_simp+
  have skipB: "\<forall>i<0. fst (rx ?B (rx_calls fresh + i)) \<noteq> -1 \<and>
           \<not> ?accB (msg_after ?B (rx_calls fresh) ?req (Suc i)) \<and>
           ms ?B (Suc (ms_calls fresh) + i) - ms ?B (ms_calls fresh) < CO_TIMEOUT_SDO"
    by simp
  have lastB: "fst (rx ?B (rx_calls fresh + 0)) \<noteq> -1"
    "?mB = msg_after ?B (rx_calls fresh) ?req (Suc 0)" "?accB ?mB"
    by code_simp+
  have vA: "(if drop_bit 4 (data ?mA ! 0) = 4 \<or> drop_bit 4 (data ?mA ! 0) = 6 then 0 else -1) = (0 :: u32)"
    "(if drop_bit 4 (data ?mA ! 0) = 4 \<or> drop_bit 4 (data ?mA ! 0) = 6
      then take_bit (8 * unat (4 :: size_t))
             (ucast (data ?mA ! 4) + 2^8 * ucast (data ?mA ! 5) + 2^16 * ucast (data ?mA ! 6) +
              2^24 * ucast (data ?mA ! 7))
      else 0) = (0xDDCCBBAA :: u32)"
    by code_simp+
  have vB: "(if drop_bit 4 (data ?mB ! 0) = 4 \<or> drop_bit 4 (data ?mB ! 0) = 6 then 0 else -1) = (-1 :: u32)"
    "(if drop_bit 4 (data ?mB ! 0) = 4 \<or> drop_bit 4 (data ?mB ! 0) = 6
      then take_bit (8 * unat (2 :: size_t))
             (ucast (data ?mB ! 4) + 2^8 * ucast (data ?mB ! 5) + 2^16 * ucast (data ?mB ! 6) +
              2^24 * ucast (data ?mB ! 7))
      else 0x12345678) = (0x12345678 :: u32)"
    by code_simp+
  have A: "coSDORead 2 ?A fresh 5 0x1018 1 0 4 =
     Inr (0, 0xDDCCBBAA,
          fresh\<lparr>tx_log := [?req], ms_calls := 2, rx_calls := 2\<rparr>)"
    using coSDORead_verdict [OF a lA refl txA refl skipA lastA, of 0 0]
    unfolding vA by (simp add: fresh_def numeral_2_eq_2)
  have B: "coSDORead 1 ?B fresh 5 0x1018 1 0x12345678 2 =
     Inr (-1, 0x12345678,
          fresh\<lparr>tx_log := [?req], ms_calls := 1, rx_calls := 1\<rparr>)"
    using coSDORead_verdict [OF a lB refl txB refl skipB lastB, of 0 "0x12345678"]
    unfolding vB by (simp add: fresh_def)
  from A B show ?thesis by (rule conjI)
qed

text \<open>
  Claim C3 does not hold of the code in its last part. An SDO abort response has the
  command specifier \<open>0x80\<close>, whose low two bits are not \<open>0b11\<close>, so the condition of
  \<^verbatim>\<open>coSDORead\<close> rejects it before the \<^verbatim>\<open>switch\<close> with its \<^verbatim>\<open>case 0x80: // error\<close> is
  reached. A read of \<open>0x1018.1\<close> (4 bytes) of node 5:
  \<^item> answered by the abort \<open>[0x80, 0x18, 0x10, 0x01, 0x00, 0x00, 0x02, 0x06]\<close> and then
    by \<open>[0x43, 0x18, 0x10, 0x01, 0xAA, 0xBB, 0xCC, 0xDD]\<close>, it returns 0 and the value
    \<open>0xDDCCBBAA\<close>: the abort was passed over;
  \<^item> answered by the abort alone, 1 ms after the request, it has not returned after
    that poll;
  \<^item> \<^verbatim>\<open>coSDOWrite\<close>, given the same abort, returns \<open>-1\<close> at that poll.
\<close>

theorem coSDORead_ignores_abort_response:
  "coSDORead 2
     (bus [(0, Some (frame 0x585 [0x80, 0x18, 0x10, 0x01, 0x00, 0x00, 0x02, 0x06])),
           (0, Some (frame 0x585 [0x43, 0x18, 0x10, 0x01, 0xAA, 0xBB, 0xCC, 0xDD]))] [0, 1, 2])
     fresh 5 0x1018 1 0 4 =
     Inr (0, 0xDDCCBBAA,
          fresh\<lparr>rx_calls := 2, ms_calls := 2, tx_log := [sdoReadRequest 5 0x1018 1]\<rparr>) \<and>
   coSDORead 1
     (bus [(0, Some (frame 0x585 [0x80, 0x18, 0x10, 0x01, 0x00, 0x00, 0x02, 0x06]))] [0, 1])
     fresh 5 0x1018 1 0 4 = Inl FuelExhausted \<and>
   coSDOWrite 1
     (bus [(0, Some (frame 0x585 [0x80, 0x18, 0x10, 0x01, 0x00, 0x00, 0x02, 0x06]))] [0, 1])
     fresh 5 0x1018 1 0 4 =
     Inr (-1, fresh\<lparr>rx_calls := 1, ms_calls := 1,
                   tx_log := [sdoWriteRequest 5 0x1018 1 0 4]\<rparr>)"
  by code_simp


subsection \<open>Outputs of \<^verbatim>\<open>coSDORead\<close> and \<^verbatim>\<open>coRPDO\<close>\<close>

text \<open>
  Claim C10. When \<^verbatim>\<open>coSDORead\<close> returns a value other than 0 (an error of a callback, a
  timeout or an abort), the caller's \<^verbatim>\<open>*data\<close> holds what it held before the call. When
  \<^verbatim>\<open>coRPDO\<close> returns a value other than 0 (1 for no usable frame, also after an
  emergency was delivered, or the error of the receive callback), the caller's buffer
  and \<^verbatim>\<open>*len\<close> hold what they held before the call.
\<close>

theorem outputs_untouched_unless_success:
  "(coSDORead fuel co s nodeId index subIndex out n = Inr (r, out', s') \<and> r \<noteq> 0 \<longrightarrow>
      out' = out) \<and>
   (coRPDO co2 s2 msg0 nodeId2 dat len2 = Inr (r2, dat', len2', s2') \<and> r2 \<noteq> 0 \<longrightarrow>
      dat' = dat \<and> len2' = len2)"
proof (intro conjI impI)
  assume a: "coSDORead fuel co s nodeId index subIndex out n = Inr (r, out', s') \<and> r \<noteq> 0"
  show "out' = out"
    by (rule coSDORead_keeps_out [OF conjunct1 [OF a] conjunct2 [OF a]])
next
  assume b: "coRPDO co2 s2 msg0 nodeId2 dat len2 = Inr (r2, dat', len2', s2') \<and> r2 \<noteq> 0"
  from coRPDO_keeps_buffer [OF conjunct1 [OF b] conjunct2 [OF b]]
  show "dat' = dat" and "len2' = len2" by simp_all
qed

text \<open>
  A read that is aborted (command specifier \<open>0x83\<close>, which the condition accepts) leaves
  \<open>0x12345678\<close> in place; \<^verbatim>\<open>coRPDO\<close> leaves an 8 byte buffer alone on a poll without
  data and on an emergency frame.
\<close>

theorem outputs_untouched_unless_success_witness:
  "coSDORead 1 (bus [(0, Some (frame 0x585 [0x83, 0x18, 0x10, 0x01, 0, 0, 2, 6]))] [0]) fresh
     5 0x1018 1 0x12345678 4 =
     Inr (-1, 0x12345678,
          fresh\<lparr>rx_calls := 1, ms_calls := 1, tx_log := [sdoReadRequest 5 0x1018 1]\<rparr>) \<and>
   coRPDO (bus [(1, None)] [0]) fresh (frame 0 []) 5 [9, 9, 9, 9, 9, 9, 9, 9] 8 =
     Inr (1, [9, 9, 9, 9, 9, 9, 9, 9], 8, fresh\<lparr>rx_calls := 1\<rparr>) \<and>
   coRPDO (bus [(0, Some (frame 0x087 [0x10, 0x20, 0x05, 1, 2, 3, 4, 5]))] [0]) fresh (frame 0 []) 5
       [9, 9, 9, 9, 9, 9, 9, 9] 8 =
     Inr (1, [9, 9, 9, 9, 9, 9, 9, 9], 8,
          fresh\<lparr>rx_calls := 1,
            emcy_log := [\<lparr>emcy_nodeId = 7, emcy_eec = 0x2010, emcy_er = 5,
                          emcy_msef = [1, 2, 3, 4, 5]\<rparr>]\<rparr>) \<and>
   (-1 :: u32) \<noteq> 0 \<and> (1 :: c_int) \<noteq> 0"
proof -
  let ?co = "bus [(0, Some (frame 0x585 [0x83, 0x18, 0x10, 0x01, 0, 0, 2, 6]))] [0]"
  let ?s' = "fresh\<lparr>rx_calls := 1, ms_calls := 1, tx_log := [sdoReadRequest 5 0x1018 1]\<rparr>"
  have "case coSDORead 1 ?co fresh 5 0x1018 1 0x12345678 4 of
          Inl f \<Rightarrow> False | Inr (r, out', s') \<Rightarrow> r = -1 \<and> s' = ?s'"
    by code_simp
  then obtain out' where
    rd: "coSDORead 1 ?co fresh 5 0x1018 1 0x12345678 4 = Inr (-1, out', ?s')"
    by (auto split: sum.splits prod.splits)
  have nz: "(-1 :: u32) \<noteq> 0" "(1 :: c_int) \<noteq> 0" by simp_all
  from outputs_untouched_unless_success
    [of 1 ?co fresh 5 "0x1018" 1 "0x12345678" 4 "-1" out' ?s'] rd nz(1)
  have "out' = 0x12345678" by blast
  with rd have 1: "coSDORead 1 ?co fresh 5 0x1018 1 0x12345678 4 = Inr (-1, 0x12345678, ?s')"
    by simp
  have 2: "coRPDO (bus [(1, None)] [0]) fresh (frame 0 []) 5 [9, 9, 9, 9, 9, 9, 9, 9] 8 =
     Inr (1, [9, 9, 9, 9, 9, 9, 9, 9], 8, fresh\<lparr>rx_calls := 1\<rparr>)"
    by code_simp
  have 3: "coRPDO (bus [(0, Some (frame 0x087 [0x10, 0x20, 0x05, 1, 2, 3, 4, 5]))] [0]) fresh (frame 0 []) 5
       [9, 9, 9, 9, 9, 9, 9, 9] 8 =
     Inr (1, [9, 9, 9, 9, 9, 9, 9, 9], 8,
          fresh\<lparr>rx_calls := 1,
            emcy_log := [\<lparr>emcy_nodeId = 7, emcy_eec = 0x2010, emcy_er = 5,
                          emcy_msef = [1, 2, 3, 4, 5]\<rparr>]\<rparr>)"
    by code_simp
  from 1 2 3 nz show ?thesis by (intro conjI)
qed


subsection \<open>Emergency frames in \<^verbatim>\<open>coRPDO\<close>\<close>

lemma eec_little_endian:
  "(ucast (ucast (a :: u8) OR push_bit 8 (ucast (b :: u8)) :: u32) :: u16) = ucast a + 256 * ucast b"
proof -
  have 1: "(ucast (ucast a OR push_bit 8 (ucast b) :: u32) :: u16) = ucast a OR push_bit 8 (ucast b)"
    by (rule bit_eqI) (auto simp add: bit_simps)
  have 2: "(ucast a :: u16) + push_bit 8 (ucast b) = ucast a OR push_bit 8 (ucast b)"
    by (rule disjunctive_add) (auto simp add: bit_simps dest: bit_imp_le_length)
  show ?thesis
    unfolding 1 2 [symmetric] by (simp add: push_bit_eq_mult)
qed

lemma drop3_of_8:
  assumes "length xs = 8"
  shows "drop 3 xs = [xs ! 3, xs ! 4, xs ! 5, xs ! 6, xs ! 7]"
proof (rule nth_equalityI)
  show "length (drop 3 xs) = length [xs ! 3, xs ! 4, xs ! 5, xs ! 6, xs ! 7]"
    using assms by simp
next
  fix i
  assume "i < length (drop 3 xs)"
  then have "i < 5" using assms by simp
  then consider "i = 0" | "i = 1" | "i = 2" | "i = 3" | "i = 4" by linarith
  then show "drop 3 xs ! i = [xs ! 3, xs ! 4, xs ! 5, xs ! 6, xs ! 7] ! i"
    using assms by cases simp_all
qed

text \<open>
  Claim C7. When \<^verbatim>\<open>coRPDO\<close> receives a frame of class \<^verbatim>\<open>COB_ID_EMCY\<close>, it hands to the
  emergency callback the low 7 bits of the identifier as node, the 16 bit error code
  \<open>data[0] + 256 * data[1]\<close>, the error register \<open>data[2]\<close> and the five bytes
  \<open>data[3..7]\<close>, and returns 1, leaving the caller's buffer and length alone.
\<close>

theorem coRPDO_emergency:
  assumes "0 < nodeId" and "nodeId \<le> 127"
    and "rx co (rx_calls s) = (0, Some m)"
    and "getCOBIDType m = COB_ID_EMCY"
    and "length (data m) = 8"
  shows "coRPDO co s msg0 nodeId dat n =
     Inr (1, dat, n,
       s\<lparr>rx_calls := Suc (rx_calls s),
         emcy_log := emcy_log s @
           [\<lparr>emcy_nodeId = ucast (take_bit 7 (cobId m)),
             emcy_eec = ucast (data m ! 0) + 256 * ucast (data m ! 1),
             emcy_er = data m ! 2,
             emcy_msef = [data m ! 3, data m ! 4, data m ! 5, data m ! 6, data m ! 7]\<rparr>]\<rparr>)"
proof -
  have node: "getNodeId m = ucast (take_bit 7 (cobId m))"
    by (simp only: getNodeId_def mask_7f take_bit_eq_mask)
  show ?thesis
    using assms(1,2,4)
    by (simp add: coRPDO_def call_rx_def assms(3) Let_def node eec_little_endian
        drop3_of_8 [OF assms(5)])
qed

text \<open>The example of the claim: identifier \<open>0x087\<close>, payload
  \<open>[0x10, 0x20, 0x05, 1, 2, 3, 4, 5]\<close>.\<close>

theorem coRPDO_emergency_witness:
  "coRPDO (bus [(0, Some (frame 0x087 [0x10, 0x20, 0x05, 1, 2, 3, 4, 5]))] [0]) fresh (frame 0 []) 1
       [] 0 =
     Inr (1, [], 0,
          fresh\<lparr>rx_calls := 1,
            emcy_log := [\<lparr>emcy_nodeId = 7, emcy_eec = 0x2010, emcy_er = 5,
                          emcy_msef = [1, 2, 3, 4, 5]\<rparr>]\<rparr>)"
proof -
  let ?m = "frame 0x087 [0x10, 0x20, 0x05, 1, 2, 3, 4, 5]"
  let ?co = "bus [(0, Some ?m)] [0]"
  have a: "(0::u8) < 1" "(1::u8) \<le> 127" by simp_all
  have b: "rx ?co (rx_calls fresh) = (0, Some ?m)" by (simp add: bus_def fresh_def)
  have c: "getCOBIDType ?m = COB_ID_EMCY" "length (data ?m) = 8" by code_simp+
  have d: "\<lparr>emcy_nodeId = ucast (take_bit 7 (cobId ?m)),
             emcy_eec = ucast (data ?m ! 0) + 256 * ucast (data ?m ! 1),
             emcy_er = data ?m ! 2,
             emcy_msef = [data ?m ! 3, data ?m ! 4, data ?m ! 5, data ?m ! 6, data ?m ! 7]\<rparr> =
           \<lparr>emcy_nodeId = 7, emcy_eec = 0x2010, emcy_er = 5, emcy_msef = [1, 2, 3, 4, 5]\<rparr>"
    by code_simp
  show ?thesis
    unfolding coRPDO_emergency [OF a b c, of "frame 0 []" "[]" 0] d
    by (simp add: fresh_def)
qed


subsection \<open>Node and class of the frames sent\<close>

lemma request_node_class:
  assumes "nodeId \<le> 127"
  shows "getNodeId (m\<lparr>cobId := COB_ID_RSDO + ucast nodeId\<rparr>) = nodeId"
    and "getCOBIDType (m\<lparr>cobId := COB_ID_RSDO + ucast nodeId\<rparr>) = COB_ID_RSDO"
    and "getNodeId (m\<lparr>cobId := COB_ID_RPDO1 + ucast nodeId\<rparr>) = nodeId"
    and "getCOBIDType (m\<lparr>cobId := COB_ID_RPDO1 + ucast nodeId\<rparr>) = COB_ID_RPDO1"
proof -
  have s: "unat (0x600 :: u16) = 128 * 12" and p: "unat (0x200 :: u16) = 128 * 4"
    by simp_all
  show "getNodeId (m\<lparr>cobId := COB_ID_RSDO + ucast nodeId\<rparr>) = nodeId"
    using node_of_base(1) [OF assms s] by (simp add: getNodeId_def COB_ID_RSDO_def)
  show "getCOBIDType (m\<lparr>cobId := COB_ID_RSDO + ucast nodeId\<rparr>) = COB_ID_RSDO"
    using node_of_base(2) [OF assms s] by (simp add: getCOBIDType_def COB_ID_RSDO_def)
  show "getNodeId (m\<lparr>cobId := COB_ID_RPDO1 + ucast nodeId\<rparr>) = nodeId"
    using node_of_base(1) [OF assms p] by (simp add: getNodeId_def COB_ID_RPDO1_def)
  show "getCOBIDType (m\<lparr>cobId := COB_ID_RPDO1 + ucast nodeId\<rparr>) = COB_ID_RPDO1"
    using node_of_base(2) [OF assms p] by (simp add: getCOBIDType_def COB_ID_RPDO1_def)
qed

lemma coTPDO_eq:
  assumes "0 < nodeId" and "nodeId \<le> 127" and "0 < n" and "n \<le> 8"
    and "m = \<lparr>cobId = COB_ID_RPDO1 + ucast nodeId, len = ucast n,
               data = take (unat n) buf @ drop (unat n) [0, 0, 0, 0, 0, 0, 0, 0]\<rparr>"
  shows "coTPDO co s nodeId buf n =
         Inr (tx co (length (tx_log s)) m, s\<lparr>tx_log := tx_log s @ [m]\<rparr>)"
    and "cobId m = 0x200 + ucast nodeId" and "getNodeId m = nodeId"
    and "getCOBIDType m = COB_ID_RPDO1"
proof -
  show "coTPDO co s nodeId buf n =
         Inr (tx co (length (tx_log s)) m, s\<lparr>tx_log := tx_log s @ [m]\<rparr>)"
    using assms(1-4) by (simp add: coTPDO_def call_tx_def assms(5))
  have c: "m = m\<lparr>cobId := COB_ID_RPDO1 + ucast nodeId\<rparr>"
    by (simp add: assms(5))
  show "cobId m = 0x200 + ucast nodeId"
    by (simp add: assms(5) COB_ID_RPDO1_def)
  show "getNodeId m = nodeId" "getCOBIDType m = COB_ID_RPDO1"
    using request_node_class(3,4) [OF assms(2), of m] c by simp_all
qed

lemma coSDOWrite_early_exits:
  assumes "0 < nodeId" and "nodeId \<le> 127" and "0 < n" and "n \<le> 4"
    and "wr = sdoWriteRequest nodeId index subIndex dat n"
  shows "tx co (length (tx_log s)) wr \<noteq> 0 \<Longrightarrow>
           coSDOWrite fuel co s nodeId index subIndex dat n =
             Inr (tx co (length (tx_log s)) wr, s\<lparr>tx_log := tx_log s @ [wr]\<rparr>)"
    and "tx co (length (tx_log s)) wr = 0 \<Longrightarrow> fst (rx co (rx_calls s)) = -1 \<Longrightarrow>
           coSDOWrite (Suc fuel) co s nodeId index subIndex dat n =
             Inr (-1, s\<lparr>tx_log := tx_log s @ [wr], ms_calls := Suc (ms_calls s),
                       rx_calls := Suc (rx_calls s)\<rparr>)"
  using assms(1-4)
  by (simp_all add: coSDOWrite_def call_tx_def call_ms_def call_rx_eq assms(5) [symmetric]
      del: msg_after.simps)

lemma coSDORead_early_exits:
  assumes "0 < nodeId" and "nodeId \<le> 127" and "0 < n" and "n \<le> 4"
    and "rd = sdoReadRequest nodeId index subIndex"
  shows "tx co (length (tx_log s)) rd \<noteq> 0 \<Longrightarrow>
           coSDORead fuel co s nodeId index subIndex out n =
             Inr (tx co (length (tx_log s)) rd, out, s\<lparr>tx_log := tx_log s @ [rd]\<rparr>)"
    and "tx co (length (tx_log s)) rd = 0 \<Longrightarrow> fst (rx co (rx_calls s)) = -1 \<Longrightarrow>
           coSDORead (Suc fuel) co s nodeId index subIndex out n =
             Inr (-1, out, s\<lparr>tx_log := tx_log s @ [rd], ms_calls := Suc (ms_calls s),
                       rx_calls := Suc (rx_calls s)\<rparr>)"
  using assms(1-4)
  by (simp_all add: coSDORead_def call_tx_def call_ms_def call_rx_eq assms(5) [symmetric]
      del: msg_after.simps)

lemma sdo_request_node_class:
  assumes "nodeId \<le> 127"
  shows "cobId (sdoWriteRequest nodeId index subIndex dat n) = 0x600 + ucast nodeId"
    and "getNodeId (sdoWriteRequest nodeId index subIndex dat n) = nodeId"
    and "getCOBIDType (sdoWriteRequest nodeId index subIndex dat n) = COB_ID_RSDO"
    and "cobId (sdoReadRequest nodeId index subIndex) = 0x600 + ucast nodeId"
    and "getNodeId (sdoReadRequest nodeId index subIndex) = nodeId"
    and "getCOBIDType (sdoReadRequest nodeId index subIndex) = COB_ID_RSDO"
proof -
  let ?w = "sdoWriteRequest nodeId index subIndex dat n"
  let ?r = "sdoReadRequest nodeId index subIndex"
  have w: "?w = ?w\<lparr>cobId := COB_ID_RSDO + ucast nodeId\<rparr>"
    by (simp add: sdoWriteRequest_def Let_def)
  have r: "?r = ?r\<lparr>cobId := COB_ID_RSDO + ucast nodeId\<rparr>"
    by (simp add: sdoReadRequest_def)
  show "cobId ?w = 0x600 + ucast nodeId"
    by (simp add: sdoWriteRequest_def Let_def COB_ID_RSDO_def)
  show "cobId ?r = 0x600 + ucast nodeId"
    by (simp add: sdoReadRequest_def COB_ID_RSDO_def)
  show "getNodeId ?w = nodeId" "getCOBIDType ?w = COB_ID_RSDO"
    using request_node_class(1,2) [OF assms, of ?w] w by simp_all
  show "getNodeId ?r = nodeId" "getCOBIDType ?r = COB_ID_RSDO"
    using request_node_class(1,2) [OF assms, of ?r] r by simp_all
qed

text \<open>
  Claim C8. For a node 1 to 127, the request frames that \<^verbatim>\<open>coSDOWrite\<close> and \<^verbatim>\<open>coSDORead\<close>
  build have the identifier \<open>0x600 + node\<close>, \<^verbatim>\<open>getNodeId\<close> gives back the node and
  \<^verbatim>\<open>getCOBIDType\<close> gives \<^verbatim>\<open>COB_ID_RSDO\<close>. \<^verbatim>\<open>coTPDO\<close> with a length 1 to 8 returns, having
  handed to the send callback one frame with the identifier \<open>0x200 + node\<close>, of which
  \<^verbatim>\<open>getNodeId\<close> gives back the node and \<^verbatim>\<open>getCOBIDType\<close> gives \<^verbatim>\<open>COB_ID_RPDO1\<close>. The
  request frame is what \<^verbatim>\<open>coSDOWrite\<close> and \<^verbatim>\<open>coSDORead\<close> hand to the send callback: with
  any fuel they return at once when sending fails, with one unit of fuel they return
  when the first poll fails, and in both cases, as in every call that returns, the
  request frame is the one frame sent.
\<close>

theorem node_and_class_of_requests:
  assumes "0 < nodeId" and "nodeId \<le> 127"
    and "wr = sdoWriteRequest nodeId index subIndex dat len1"
    and "rd = sdoReadRequest nodeId index subIndex"
  shows "cobId wr = 0x600 + ucast nodeId \<and> getNodeId wr = nodeId \<and>
         getCOBIDType wr = COB_ID_RSDO \<and>
         cobId rd = 0x600 + ucast nodeId \<and> getNodeId rd = nodeId \<and>
         getCOBIDType rd = COB_ID_RSDO \<and>
         (0 < n \<and> n \<le> 8 \<longrightarrow>
           (\<exists>m. coTPDO co s nodeId buf n =
                  Inr (tx co (length (tx_log s)) m, s\<lparr>tx_log := tx_log s @ [m]\<rparr>) \<and>
                cobId m = 0x200 + ucast nodeId \<and> getNodeId m = nodeId \<and>
                getCOBIDType m = COB_ID_RPDO1)) \<and>
         (0 < len1 \<and> len1 \<le> 4 \<longrightarrow>
           (tx co (length (tx_log s)) wr \<noteq> 0 \<longrightarrow>
              coSDOWrite fuel co s nodeId index subIndex dat len1 =
                Inr (tx co (length (tx_log s)) wr, s\<lparr>tx_log := tx_log s @ [wr]\<rparr>)) \<and>
           (tx co (length (tx_log s)) wr = 0 \<and> fst (rx co (rx_calls s)) = -1 \<longrightarrow>
              coSDOWrite (Suc fuel) co s nodeId index subIndex dat len1 =
                Inr (-1, s\<lparr>tx_log := tx_log s @ [wr], ms_calls := Suc (ms_calls s),
                          rx_calls := Suc (rx_calls s)\<rparr>)) \<and>
           (coSDOWrite fuel co s nodeId index subIndex dat len1 = Inr (r1, s1) \<longrightarrow>
              tx_log s1 = tx_log s @ [wr])) \<and>
         (0 < len2 \<and> len2 \<le> 4 \<longrightarrow>
           (tx co (length (tx_log s)) rd \<noteq> 0 \<longrightarrow>
              coSDORead fuel co s nodeId index subIndex out len2 =
                Inr (tx co (length (tx_log s)) rd, out, s\<lparr>tx_log := tx_log s @ [rd]\<rparr>)) \<and>
           (tx co (length (tx_log s)) rd = 0 \<and> fst (rx co (rx_calls s)) = -1 \<longrightarrow>
              coSDORead (Suc fuel) co s nodeId index subIndex out len2 =
                Inr (-1, out, s\<lparr>tx_log := tx_log s @ [rd], ms_calls := Suc (ms_calls s),
                          rx_calls := Suc (rx_calls s)\<rparr>)) \<and>
           (coSDORead fuel co s nodeId index subIndex out len2 = Inr (r2, out2, s2) \<longrightarrow>
              tx_log s2 = tx_log s @ [rd]))"
proof -
  note nc = sdo_request_node_class [OF assms(2), of index subIndex]
  have builders: "cobId wr = 0x600 + ucast nodeId" "getNodeId wr = nodeId"
    "getCOBIDType wr = COB_ID_RSDO" "cobId rd = 0x600 + ucast nodeId" "getNodeId rd = nodeId"
    "getCOBIDType rd = COB_ID_RSDO"
    unfolding assms(3,4) by (rule nc)+
  have pdo: "\<exists>m. coTPDO co s nodeId buf n =
                  Inr (tx co (length (tx_log s)) m, s\<lparr>tx_log := tx_log s @ [m]\<rparr>) \<and>
                cobId m = 0x200 + ucast nodeId \<and> getNodeId m = nodeId \<and>
                getCOBIDType m = COB_ID_RPDO1"
    if "0 < n \<and> n \<le> 8"
  proof -
    from that have n: "0 < n" "n \<le> 8" by simp_all
    from coTPDO_eq [OF assms(1,2) n refl] show ?thesis by blast
  qed
  have wr1: "coSDOWrite fuel co s nodeId index subIndex dat len1 =
                Inr (tx co (length (tx_log s)) wr, s\<lparr>tx_log := tx_log s @ [wr]\<rparr>)"
    if "0 < len1 \<and> len1 \<le> 4" "tx co (length (tx_log s)) wr \<noteq> 0"
    using coSDOWrite_early_exits(1) [OF assms(1,2) _ _ assms(3) that(2)] that(1) by blast
  have wr2: "coSDOWrite (Suc fuel) co s nodeId index subIndex dat len1 =
                Inr (-1, s\<lparr>tx_log := tx_log s @ [wr], ms_calls := Suc (ms_calls s),
                          rx_calls := Suc (rx_calls s)\<rparr>)"
    if "0 < len1 \<and> len1 \<le> 4" "tx co (length (tx_log s)) wr = 0 \<and> fst (rx co (rx_calls s)) = -1"
    using coSDOWrite_early_exits(2) [OF assms(1,2) _ _ assms(3)] that by blast
  have wr3: "tx_log s1 = tx_log s @ [wr]"
    if "coSDOWrite fuel co s nodeId index subIndex dat len1 = Inr (r1, s1)"
    unfolding assms(3) using that by (rule coSDOWrite_sends)
  have rd1: "coSDORead fuel co s nodeId index subIndex out len2 =
                Inr (tx co (length (tx_log s)) rd, out, s\<lparr>tx_log := tx_log s @ [rd]\<rparr>)"
    if "0 < len2 \<and> len2 \<le> 4" "tx co (length (tx_log s)) rd \<noteq> 0"
    using coSDORead_early_exits(1) [OF assms(1,2) _ _ assms(4) that(2)] that(1) by blast
  have rd2: "coSDORead (Suc fuel) co s nodeId index subIndex out len2 =
                Inr (-1, out, s\<lparr>tx_log := tx_log s @ [rd], ms_calls := Suc (ms_calls s),
                          rx_calls := Suc (rx_calls s)\<rparr>)"
    if "0 < len2 \<and> len2 \<le> 4" "tx co (length (tx_log s)) rd = 0 \<and> fst (rx co (rx_calls s)) = -1"
    using coSDORead_early_exits(2) [OF assms(1,2) _ _ assms(4)] that by blast
  have rd3: "tx_log s2 = tx_log s @ [rd]"
    if "coSDORead fuel co s nodeId index subIndex out len2 = Inr (r2, out2, s2)"
    unfolding assms(4) using that by (rule coSDORead_sends)
  have P: "0 < n \<and> n \<le> 8 \<longrightarrow>
           (\<exists>m. coTPDO co s nodeId buf n =
                  Inr (tx co (length (tx_log s)) m, s\<lparr>tx_log := tx_log s @ [m]\<rparr>) \<and>
                cobId m = 0x200 + ucast nodeId \<and> getNodeId m = nodeId \<and>
                getCOBIDType m = COB_ID_RPDO1)"
    using pdo by blast
  have W: "0 < len1 \<and> len1 \<le> 4 \<longrightarrow>
           (tx co (length (tx_log s)) wr \<noteq> 0 \<longrightarrow>
              coSDOWrite fuel co s nodeId index subIndex dat len1 =
                Inr (tx co (length (tx_log s)) wr, s\<lparr>tx_log := tx_log s @ [wr]\<rparr>)) \<and>
           (tx co (length (tx_log s)) wr = 0 \<and> fst (rx co (rx_calls s)) = -1 \<longrightarrow>
              coSDOWrite (Suc fuel) co s nodeId index subIndex dat len1 =
                Inr (-1, s\<lparr>tx_log := tx_log s @ [wr], ms_calls := Suc (ms_calls s),
                          rx_calls := Suc (rx_calls s)\<rparr>)) \<and>
           (coSDOWrite fuel co s nodeId index subIndex dat len1 = Inr (r1, s1) \<longrightarrow>
              tx_log s1 = tx_log s @ [wr])"
    using wr1 wr2 wr3 by blast
  have R: "0 < len2 \<and> len2 \<le> 4 \<longrightarrow>
           (tx co (length (tx_log s)) rd \<noteq> 0 \<longrightarrow>
              coSDORead fuel co s nodeId index subIndex out len2 =
                Inr (tx co (length (tx_log s)) rd, out, s\<lparr>tx_log := tx_log s @ [rd]\<rparr>)) \<and>
           (tx co (length (tx_log s)) rd = 0 \<and> fst (rx co (rx_calls s)) = -1 \<longrightarrow>
              coSDORead (Suc fuel) co s nodeId index subIndex out len2 =
                Inr (-1, out, s\<lparr>tx_log := tx_log s @ [rd], ms_calls := Suc (ms_calls s),
                          rx_calls := Suc (rx_calls s)\<rparr>)) \<and>
           (coSDORead fuel co s nodeId index subIndex out len2 = Inr (r2, out2, s2) \<longrightarrow>
              tx_log s2 = tx_log s @ [rd])"
    using rd1 rd2 rd3 by blast
  show ?thesis
    by (intro conjI builders P W R)
qed


text \<open>
  Node 5: the requests for \<open>0x1A00.2\<close> have the identifier \<open>0x605\<close>, six bytes of process
  data go out under \<open>0x205\<close>, and \<^verbatim>\<open>coSDOWrite\<close> and \<^verbatim>\<open>coSDORead\<close> return with their
  request in the log, once with a receive callback that fails and once with a send
  callback that fails.
\<close>

theorem node_and_class_of_requests_witness:
  "getNodeId (sdoWriteRequest 5 0x1A00 2 0x00112233 3) = 5 \<and>
   getCOBIDType (sdoWriteRequest 5 0x1A00 2 0x00112233 3) = COB_ID_RSDO \<and>
   cobId (sdoWriteRequest 5 0x1A00 2 0x00112233 3) = 0x605 \<and>
   getNodeId (sdoReadRequest 5 0x1A00 2) = 5 \<and>
   getCOBIDType (sdoReadRequest 5 0x1A00 2) = COB_ID_RSDO \<and>
   cobId (sdoReadRequest 5 0x1A00 2) = 0x605 \<and>
   coTPDO (bus [] [0]) fresh 5 [1, 2, 3, 4, 5, 6] 6 =
     Inr (0, fresh\<lparr>tx_log := [\<lparr>cobId = 0x205, len = 6, data = [1, 2, 3, 4, 5, 6, 0, 0]\<rparr>]\<rparr>) \<and>
   getNodeId \<lparr>cobId = 0x205, len = 6, data = [1, 2, 3, 4, 5, 6, 0, 0]\<rparr> = 5 \<and>
   getCOBIDType \<lparr>cobId = 0x205, len = 6, data = [1, 2, 3, 4, 5, 6, 0, 0]\<rparr> = COB_ID_RPDO1 \<and>
   coSDOWrite 1 (bus [(-1, None)] [0]) fresh 5 0x1A00 2 0x00112233 3 =
     Inr (-1, fresh\<lparr>tx_log := [sdoWriteRequest 5 0x1A00 2 0x00112233 3],
                   ms_calls := 1, rx_calls := 1\<rparr>) \<and>
   coSDORead 1 (bus [(-1, None)] [0]) fresh 5 0x1A00 2 7 3 =
     Inr (-1, 7, fresh\<lparr>tx_log := [sdoReadRequest 5 0x1A00 2], ms_calls := 1, rx_calls := 1\<rparr>) \<and>
   coSDOWrite 0 ((bus [] [0])\<lparr>tx := \<lambda>n m. -1\<rparr>) fresh 5 0x1A00 2 0x00112233 3 =
     Inr (-1, fresh\<lparr>tx_log := [sdoWriteRequest 5 0x1A00 2 0x00112233 3]\<rparr>) \<and>
   coSDORead 0 ((bus [] [0])\<lparr>tx := \<lambda>n m. -1\<rparr>) fresh 5 0x1A00 2 7 3 =
     Inr (-1, 7, fresh\<lparr>tx_log := [sdoReadRequest 5 0x1A00 2]\<rparr>)"
proof -
  let ?wr = "sdoWriteRequest 5 0x1A00 2 0x00112233 3"
  let ?rd = "sdoReadRequest 5 0x1A00 2"
  let ?F = "\<lparr>cobId = 0x205, len = 6, data = [1, 2, 3, 4, 5, 6, 0, 0]\<rparr>"
  let ?E = "bus [(-1, None)] [0]"
  let ?T = "(bus [] [0])\<lparr>tx := \<lambda>n m. -1\<rparr>"
  have a: "(0::u8) < 5" "(5::u8) \<le> 127" by simp_all
  have l6: "(0::size_t) < 6 \<and> (6::size_t) \<le> 8" and l3: "(0::size_t) < 3 \<and> (3::size_t) \<le> 4"
    by simp_all
  note E = node_and_class_of_requests [OF a refl refl,
      of "0x1A00" 2 "0x00112233" 3 6 "bus [] [0]" fresh "[1, 2, 3, 4, 5, 6]" 0 _ _ 3 7]
  note W = node_and_class_of_requests [OF a refl refl,
      of "0x1A00" 2 "0x00112233" 3 6 ?E fresh "[1, 2, 3, 4, 5, 6]" 0 _ _ 3 7]
  note T = node_and_class_of_requests [OF a refl refl,
      of "0x1A00" 2 "0x00112233" 3 6 ?T fresh "[1, 2, 3, 4, 5, 6]" 0 _ _ 3 7]
  have b: "getNodeId ?wr = 5" "getCOBIDType ?wr = COB_ID_RSDO" "cobId ?wr = 0x605"
    "getNodeId ?rd = 5" "getCOBIDType ?rd = COB_ID_RSDO" "cobId ?rd = 0x605"
    using E by simp_all
  have run: "coTPDO (bus [] [0]) fresh 5 [1, 2, 3, 4, 5, 6] 6 = Inr (0, fresh\<lparr>tx_log := [?F]\<rparr>)"
    by code_simp
  from E l6 obtain m where m: "coTPDO (bus [] [0]) fresh 5 [1, 2, 3, 4, 5, 6] 6 =
      Inr (tx (bus [] [0]) (length (tx_log fresh)) m, fresh\<lparr>tx_log := tx_log fresh @ [m]\<rparr>)"
    "getNodeId m = 5" "getCOBIDType m = COB_ID_RPDO1"
    by blast
  from m(1) run have "m = ?F" by (simp add: fresh_def)
  with m(2,3) have p: "getNodeId ?F = 5" "getCOBIDType ?F = COB_ID_RPDO1" by simp_all
  have eE: "tx ?E (length (tx_log fresh)) ?wr = 0 \<and> fst (rx ?E (rx_calls fresh)) = -1"
    "tx ?E (length (tx_log fresh)) ?rd = 0 \<and> fst (rx ?E (rx_calls fresh)) = -1"
    by (simp_all add: bus_def fresh_def)
  have eT: "tx ?T (length (tx_log fresh)) ?wr \<noteq> 0" "tx ?T (length (tx_log fresh)) ?rd \<noteq> 0"
    "tx ?T (length (tx_log fresh)) ?wr = -1" "tx ?T (length (tx_log fresh)) ?rd = -1"
    by simp_all
  from W l3 eE have w1: "coSDOWrite 1 ?E fresh 5 0x1A00 2 0x00112233 3 =
     Inr (-1, fresh\<lparr>tx_log := [?wr], ms_calls := 1, rx_calls := 1\<rparr>)"
    by (simp add: fresh_def)
  from W l3 eE have r1: "coSDORead 1 ?E fresh 5 0x1A00 2 7 3 =
     Inr (-1, 7, fresh\<lparr>tx_log := [?rd], ms_calls := 1, rx_calls := 1\<rparr>)"
    by (simp add: fresh_def)
  from T l3 eT have w2: "coSDOWrite 0 ?T fresh 5 0x1A00 2 0x00112233 3 =
     Inr (-1, fresh\<lparr>tx_log := [?wr]\<rparr>)"
    by (simp add: fresh_def)
  from T l3 eT have r2: "coSDORead 0 ?T fresh 5 0x1A00 2 7 3 =
     Inr (-1, 7, fresh\<lparr>tx_log := [?rd]\<rparr>)"
    by (simp add: fresh_def)
  from b run p w1 r1 w2 r2 show ?thesis by (intro conjI)
qed


subsection \<open>The SYNC counter\<close>

lemma coSYNC_times_log:
  "tx_log (coSYNC_times n True co s) =
     tx_log s @ map (\<lambda>k. \<lparr>cobId = COB_ID_SYNC, len = 1,
                         data = [syncCounter s + of_nat k, 0, 0, 0, 0, 0, 0, 0]\<rparr>) [0..<n]"
proof (induction n arbitrary: s)
  case 0
  then show ?case by simp
next
  case (Suc n)
  let ?s1 = "snd (coSYNC True co s)"
  have s1: "tx_log ?s1 = tx_log s @ [\<lparr>cobId = COB_ID_SYNC, len = 1,
                         data = [syncCounter s, 0, 0, 0, 0, 0, 0, 0]\<rparr>]"
    "syncCounter ?s1 = syncCounter s + 1"
    by (simp_all add: coSYNC_def call_tx_def Let_def)
  have "tx_log (coSYNC_times (Suc n) True co s) = tx_log (coSYNC_times n True co ?s1)"
    by simp
  also have "\<dots> = tx_log ?s1 @ map (\<lambda>k. \<lparr>cobId = COB_ID_SYNC, len = 1,
                         data = [syncCounter ?s1 + of_nat k, 0, 0, 0, 0, 0, 0, 0]\<rparr>) [0..<n]"
    by (rule Suc.IH)
  also have "\<dots> = tx_log s @ map (\<lambda>k. \<lparr>cobId = COB_ID_SYNC, len = 1,
                         data = [syncCounter s + of_nat k, 0, 0, 0, 0, 0, 0, 0]\<rparr>) [0..<Suc n]"
    unfolding s1 map_upt_Suc by (simp add: add.assoc)
  finally show ?case .
qed

text \<open>
  Claim C9. With \<^verbatim>\<open>CO_SYNC_COUNTER_ENABLE\<close> defined, the \<open>n\<close> calls of \<^verbatim>\<open>coSYNC\<close> that
  follow \<^verbatim>\<open>coSYNCResetCounter\<close> hand to the send callback \<open>n\<close> frames with identifier
  \<open>0x080\<close> and length 1, and the frame of call number \<open>k\<close> (from 0) carries the byte
  \<open>k + 1\<close>: the first one 1, each later one the byte before plus 1, modulo 256.
\<close>

theorem coSYNC_counter_sequence:
  "tx_log (coSYNC_times n True co (snd (coSYNCResetCounter s))) =
     tx_log s @ map (\<lambda>k. \<lparr>cobId = 0x080, len = 1,
                         data = [of_nat (Suc k), 0, 0, 0, 0, 0, 0, 0]\<rparr>) [0..<n] \<and>
   unat (of_nat (Suc k) :: u8) = Suc k mod 256 \<and>
   (of_nat (Suc (Suc k)) :: u8) = of_nat (Suc k) + 1"
proof -
  have "tx_log (coSYNC_times n True co (snd (coSYNCResetCounter s))) =
     tx_log s @ map (\<lambda>k. \<lparr>cobId = 0x080, len = 1,
                         data = [of_nat (Suc k), 0, 0, 0, 0, 0, 0, 0]\<rparr>) [0..<n]"
    unfolding coSYNC_times_log by (simp add: coSYNCResetCounter_def COB_ID_SYNC_def)
  moreover have "unat (of_nat (Suc k) :: u8) = Suc k mod 256"
    using unat_of_nat [of "Suc k", where 'a = 8] by simp
  ultimately show ?thesis by simp
qed

text \<open>The first three frames after a reset carry 1, 2 and 3; call number 254 sends 255
  and call number 255 sends 0.\<close>

theorem coSYNC_counter_sequence_witness:
  "tx_log (coSYNC_times 3 True (bus [] [0]) (snd (coSYNCResetCounter fresh))) =
     [frame 0x080 [1], frame 0x080 [2], frame 0x080 [3]] \<and>
   (of_nat (Suc 254) :: u8) = 255 \<and> (of_nat (Suc 255) :: u8) = 0"
proof -
  have "map (\<lambda>k. \<lparr>cobId = 0x080, len = 1, data = [of_nat (Suc k), 0, 0, 0, 0, 0, 0, 0]\<rparr>) [0..<3] =
        [frame 0x080 [1], frame 0x080 [2], frame 0x080 [3 :: u8]]"
    by code_simp
  moreover have "(of_nat (Suc 254) :: u8) = 255" "(of_nat (Suc 255) :: u8) = 0"
    by simp_all
  ultimately show ?thesis
    using coSYNC_counter_sequence [of 3 "bus [] [0]" fresh 0]
    by (simp add: fresh_def)
qed


end
